theory Spec2Isabelle
  imports Complex_Main "HOL-Library.Multiset" "HOL-Library.Product_Lexorder"
begin

section \<open>Errors\<close>

text \<open>
  Every \<^verbatim>\<open>throw\<close> of the source is a value. \<^verbatim>\<open>invariant(cond, msg)\<close> of
  tiny-invariant raises with the message \<open>msg\<close>; the two liquidity failures are the
  error classes of \<^verbatim>\<open>errors.ts\<close>; \<open>RangeError\<close> is what the big-integer library
  raises on a division by zero, \<open>TypeError\<close> what JavaScript raises on a member access
  on \<^verbatim>\<open>undefined\<close>.
\<close>

datatype error =
    InsufficientReservesError
  | InsufficientInputAmountError
  | Invariant string
  | RangeError
  | TypeError

section \<open>Assets and amounts\<close>

record Token =
  chainId :: nat
  address :: string
  decimals :: nat

datatype Currency = ETHER | TokenCurrency Token

datatype TradeType = EXACT_INPUT | EXACT_OUTPUT

text \<open>\<^verbatim>\<open>Token.equals\<close>: same chain and same address.\<close>

definition token_equals :: "Token \<Rightarrow> Token \<Rightarrow> bool" where
  "token_equals a b = (chainId a = chainId b \<and> address a = address b)"

text \<open>
  \<^verbatim>\<open>currencyEquals\<close>: two tokens are compared by \<^verbatim>\<open>equals\<close>, a token never
  equals the native asset, and the native asset equals itself.
\<close>

fun currencyEquals :: "Currency \<Rightarrow> Currency \<Rightarrow> bool" where
  "currencyEquals (TokenCurrency a) (TokenCurrency b) = token_equals a b"
| "currencyEquals (TokenCurrency a) ETHER = False"
| "currencyEquals ETHER (TokenCurrency b) = False"
| "currencyEquals ETHER ETHER = True"

record TokenAmount =
  token :: Token
  raw :: int

text \<open>
  A value of the static type \<^verbatim>\<open>CurrencyAmount\<close> is either an instance of the
  subclass \<^verbatim>\<open>TokenAmount\<close> or a plain amount of some currency (the native asset,
  for every amount the public factory \<^verbatim>\<open>CurrencyAmount.ether\<close> makes).
\<close>

datatype CurrencyAmount = TokenAmt TokenAmount | PlainAmt Currency int

fun currency :: "CurrencyAmount \<Rightarrow> Currency" where
  "currency (TokenAmt ta) = TokenCurrency (token ta)"
| "currency (PlainAmt c n) = c"

fun amount_raw :: "CurrencyAmount \<Rightarrow> int" where
  "amount_raw (TokenAmt ta) = raw ta"
| "amount_raw (PlainAmt c n) = n"

fun currency_decimals :: "Currency \<Rightarrow> nat" where
  "currency_decimals ETHER = 18"
| "currency_decimals (TokenCurrency t) = decimals t"

section \<open>Exact fractions\<close>

text \<open>
  Modelled from the spec: the class \<^verbatim>\<open>Fraction\<close> (\<^verbatim>\<open>fractions/fraction.ts\<close>) is
  not among the sources. Section 4.1 of the specification: a pair of arbitrary-precision
  integers; add, subtract, multiply, divide, invert and the comparisons are done by
  cross-multiplication of numerators and denominators; \<open>quotient\<close> is the integer
  division of the numerator by the denominator, truncated toward zero.
\<close>

record Fraction =
  numerator :: int
  denominator :: int

type_synonym Percent = Fraction

definition ZERO :: Fraction where
  "ZERO = \<lparr>numerator = 0, denominator = 1\<rparr>"

definition ONE :: Fraction where
  "ONE = \<lparr>numerator = 1, denominator = 1\<rparr>"

text \<open>A big integer used where a fraction is expected is that integer over one.\<close>

definition of_bigint :: "int \<Rightarrow> Fraction" where
  "of_bigint n = \<lparr>numerator = n, denominator = 1\<rparr>"

definition frac_invert :: "Fraction \<Rightarrow> Fraction" where
  "frac_invert a = \<lparr>numerator = denominator a, denominator = numerator a\<rparr>"

definition frac_add :: "Fraction \<Rightarrow> Fraction \<Rightarrow> Fraction" where
  "frac_add a b =
     (if denominator a = denominator b
      then \<lparr>numerator = numerator a + numerator b, denominator = denominator a\<rparr>
      else \<lparr>numerator = numerator a * denominator b + numerator b * denominator a,
            denominator = denominator a * denominator b\<rparr>)"

definition frac_subtract :: "Fraction \<Rightarrow> Fraction \<Rightarrow> Fraction" where
  "frac_subtract a b =
     (if denominator a = denominator b
      then \<lparr>numerator = numerator a - numerator b, denominator = denominator a\<rparr>
      else \<lparr>numerator = numerator a * denominator b - numerator b * denominator a,
            denominator = denominator a * denominator b\<rparr>)"

definition frac_multiply :: "Fraction \<Rightarrow> Fraction \<Rightarrow> Fraction" where
  "frac_multiply a b =
     \<lparr>numerator = numerator a * numerator b, denominator = denominator a * denominator b\<rparr>"

definition frac_divide :: "Fraction \<Rightarrow> Fraction \<Rightarrow> Fraction" where
  "frac_divide a b =
     \<lparr>numerator = numerator a * denominator b, denominator = denominator a * numerator b\<rparr>"

definition frac_lessThan :: "Fraction \<Rightarrow> Fraction \<Rightarrow> bool" where
  "frac_lessThan a b = (numerator a * denominator b < numerator b * denominator a)"

definition frac_equalTo :: "Fraction \<Rightarrow> Fraction \<Rightarrow> bool" where
  "frac_equalTo a b = (numerator a * denominator b = numerator b * denominator a)"

definition frac_greaterThan :: "Fraction \<Rightarrow> Fraction \<Rightarrow> bool" where
  "frac_greaterThan a b = (numerator a * denominator b > numerator b * denominator a)"

text \<open>Big-integer division: truncation toward zero, an error on a zero divisor.\<close>

definition bigint_divide :: "int \<Rightarrow> int \<Rightarrow> error + int" where
  "bigint_divide a b =
     (if b = 0 then Inl RangeError else Inr (sgn a * sgn b * (\<bar>a\<bar> div \<bar>b\<bar>)))"

definition frac_quotient :: "Fraction \<Rightarrow> error + int" where
  "frac_quotient a = bigint_divide (numerator a) (denominator a)"

text \<open>
  Modelled from the spec: the classes \<^verbatim>\<open>CurrencyAmount\<close> and \<^verbatim>\<open>TokenAmount\<close>
  (\<^verbatim>\<open>fractions/currencyAmount.ts\<close>, \<^verbatim>\<open>fractions/tokenAmount.ts\<close>) are not among the
  sources. An amount is a currency-tagged raw integer built on the exact fraction: its
  raw integer over ten to the power of the decimal precision of its currency. The
  comparisons of two amounts are those of these fractions.
\<close>

definition amount_fraction :: "CurrencyAmount \<Rightarrow> Fraction" where
  "amount_fraction a =
     \<lparr>numerator = amount_raw a, denominator = 10 ^ currency_decimals (currency a)\<rparr>"

text \<open>The rational number a fraction stands for, and truncation toward zero on rationals.\<close>

definition frac_value :: "Fraction \<Rightarrow> rat" where
  "frac_value a = of_int (numerator a) / of_int (denominator a)"

definition truncate_rat :: "rat \<Rightarrow> int" where
  "truncate_rat x = (if 0 \<le> x then \<lfloor>x\<rfloor> else \<lceil>x\<rceil>)"

section \<open>Prices, pairs and routes\<close>

text \<open>
  Modelled from the spec: the class \<^verbatim>\<open>Price\<close> (\<^verbatim>\<open>fractions/price.ts\<close>) is not
  among the sources. A price is a fraction of raw quote units per raw base unit between
  a base and a quote asset; \<^verbatim>\<open>new Price(base, quote, denominator, numerator)\<close> takes
  the denominator before the numerator; the product of two prices requires the quote
  of the first to be the base of the second.
\<close>

record Price =
  baseCurrency :: Token
  quoteCurrency :: Token
  price_raw :: Fraction

definition Price_constructor :: "Token \<Rightarrow> Token \<Rightarrow> int \<Rightarrow> int \<Rightarrow> Price" where
  "Price_constructor b q den num =
     \<lparr>baseCurrency = b, quoteCurrency = q,
      price_raw = \<lparr>numerator = num, denominator = den\<rparr>\<rparr>"

definition price_multiply :: "Price \<Rightarrow> Price \<Rightarrow> error + Price" where
  "price_multiply a b =
     (if \<not> token_equals (quoteCurrency a) (baseCurrency b) then Inl (Invariant ''TOKEN'')
      else let f = frac_multiply (price_raw a) (price_raw b)
           in Inr (Price_constructor (baseCurrency a) (quoteCurrency b)
                     (denominator f) (numerator f)))"

text \<open>
  Modelled from the spec: the class \<^verbatim>\<open>Pair\<close> (\<^verbatim>\<open>pair.ts\<close>) is not among the
  sources. Section 4.2 of the specification: two tokens in canonical order with their
  reserves; a swap of an amount whose token is neither of the two is a validation failure;
  \<open>getOutputAmount\<close> needs both
  reserves nonzero (else \<open>InsufficientReserves\<close>), takes the 0.3 per cent fee on a
  scale of 1000, truncates, and fails with \<open>InsufficientInputAmount\<close> on an output of
  zero; \<open>getInputAmount\<close> needs the requested output to be strictly below its
  reserve (else \<open>InsufficientReserves\<close>) and rounds the inverse formula up, as one more
  than the truncated quotient. Both return the pair after the swap as a new value.
\<close>

record Pair =
  token0 :: Token
  token1 :: Token
  reserve0 :: int
  reserve1 :: int

definition involvesToken :: "Pair \<Rightarrow> Token \<Rightarrow> bool" where
  "involvesToken p t = (token_equals t (token0 p) \<or> token_equals t (token1 p))"

definition getOutputAmount :: "Pair \<Rightarrow> TokenAmount \<Rightarrow> error + (TokenAmount \<times> Pair)" where
  "getOutputAmount p inputAmount =
     (if \<not> involvesToken p (token inputAmount) then Inl (Invariant ''TOKEN'')
      else if reserve0 p = 0 \<or> reserve1 p = 0 then Inl InsufficientReservesError
      else
        let zeroForOne = token_equals (token inputAmount) (token0 p);
            inputReserve = (if zeroForOne then reserve0 p else reserve1 p);
            outputReserve = (if zeroForOne then reserve1 p else reserve0 p);
            inputAmountWithFee = raw inputAmount * 997;
            num = inputAmountWithFee * outputReserve;
            den = inputReserve * 1000 + inputAmountWithFee
        in case bigint_divide num den of
             Inl e \<Rightarrow> Inl e
           | Inr out \<Rightarrow>
               if out = 0 then Inl InsufficientInputAmountError
               else Inr (\<lparr>token = (if zeroForOne then token1 p else token0 p), raw = out\<rparr>,
                         if zeroForOne
                         then p\<lparr>reserve0 := reserve0 p + raw inputAmount,
                                reserve1 := reserve1 p - out\<rparr>
                         else p\<lparr>reserve1 := reserve1 p + raw inputAmount,
                                reserve0 := reserve0 p - out\<rparr>))"

definition getInputAmount :: "Pair \<Rightarrow> TokenAmount \<Rightarrow> error + (TokenAmount \<times> Pair)" where
  "getInputAmount p outputAmount =
     (if \<not> involvesToken p (token outputAmount) then Inl (Invariant ''TOKEN'')
      else
        let oneForZero = token_equals (token outputAmount) (token0 p);
            outputReserve = (if oneForZero then reserve0 p else reserve1 p);
            inputReserve = (if oneForZero then reserve1 p else reserve0 p)
        in if \<not> raw outputAmount < outputReserve then Inl InsufficientReservesError
           else
             let num = inputReserve * raw outputAmount * 1000;
                 den = (outputReserve - raw outputAmount) * 997
             in case bigint_divide num den of
                  Inl e \<Rightarrow> Inl e
                | Inr q \<Rightarrow>
                    Inr (\<lparr>token = (if oneForZero then token1 p else token0 p), raw = q + 1\<rparr>,
                         if oneForZero
                         then p\<lparr>reserve1 := reserve1 p + (q + 1),
                                reserve0 := reserve0 p - raw outputAmount\<rparr>
                         else p\<lparr>reserve0 := reserve0 p + (q + 1),
                                reserve1 := reserve1 p - raw outputAmount\<rparr>))"

text \<open>
  Modelled from the spec: the class \<^verbatim>\<open>Route\<close> (\<^verbatim>\<open>route.ts\<close>) and
  \<^verbatim>\<open>Price.fromRoute\<close> are not among the sources. Section 4.3 of the specification:
  the pairs are non-empty, the input belongs to the first pair, each pair contains the
  token the path has reached (the output of the pair before it), the output is the end
  of the path, and the mid price is the product of the reserve ratios along the path.
\<close>

record Route =
  pairs :: "Pair list"
  path :: "Token list"
  input :: Token
  route_output :: Token
  midPrice :: Price

fun route_path :: "Pair list \<Rightarrow> Token \<Rightarrow> error + Token list" where
  "route_path [] currentInput = Inr [currentInput]"
| "route_path (p # ps) currentInput =
     (if \<not> (token_equals currentInput (token0 p) \<or> token_equals currentInput (token1 p))
      then Inl (Invariant ''PATH'')
      else case route_path ps (if token_equals currentInput (token0 p)
                               then token1 p else token0 p) of
             Inl e \<Rightarrow> Inl e
           | Inr rest \<Rightarrow> Inr (currentInput # rest))"

definition pair_price :: "Pair \<Rightarrow> Token \<Rightarrow> Price" where
  "pair_price p t =
     (if token_equals t (token0 p)
      then Price_constructor (token0 p) (token1 p) (reserve0 p) (reserve1 p)
      else Price_constructor (token1 p) (token0 p) (reserve1 p) (reserve0 p))"

fun price_product :: "Price \<Rightarrow> Price list \<Rightarrow> error + Price" where
  "price_product acc [] = Inr acc"
| "price_product acc (x # xs) =
     (case price_multiply acc x of Inl e \<Rightarrow> Inl e | Inr a \<Rightarrow> price_product a xs)"

definition Price_fromRoute :: "Pair list \<Rightarrow> Token list \<Rightarrow> error + Price" where
  "Price_fromRoute ps pth =
     (case map (\<lambda>(p, t). pair_price p t) (zip ps pth) of
        [] \<Rightarrow> Inl TypeError
      | x # xs \<Rightarrow> price_product x xs)"

definition Route_constructor :: "Pair list \<Rightarrow> Token \<Rightarrow> error + Route" where
  "Route_constructor ps inp =
     (if \<not> length ps > 0 then Inl (Invariant ''PAIRS'')
      else if \<not> involvesToken (hd ps) inp then Inl (Invariant ''INPUT'')
      else case route_path ps inp of
             Inl e \<Rightarrow> Inl e
           | Inr pth \<Rightarrow>
               (case Price_fromRoute ps pth of
                  Inl e \<Rightarrow> Inl e
                | Inr mp \<Rightarrow>
                    Inr \<lparr>pairs = ps, path = pth, input = inp, route_output = last pth,
                         midPrice = mp\<rparr>))"

section \<open>Trades (\<^verbatim>\<open>entities/trade.ts\<close>)\<close>

record Trade =
  route :: Route
  tradeType :: TradeType
  inputAmount :: CurrencyAmount
  outputAmount :: CurrencyAmount
  executionPrice :: Price
  nextMidPrice :: Price
  priceImpact :: Percent

text \<open>
  \<^verbatim>\<open>computePriceImpact\<close>: the relative difference between the quote at the mid price
  and the output, as a percentage made of the numerator and denominator of that fraction.
\<close>

definition computePriceImpact :: "Price \<Rightarrow> TokenAmount \<Rightarrow> TokenAmount \<Rightarrow> Percent" where
  "computePriceImpact midPrice' inputAmount' outputAmount' =
     (let exactQuote = frac_multiply (price_raw midPrice') (of_bigint (raw inputAmount'));
          slippage = frac_divide (frac_subtract exactQuote (of_bigint (raw outputAmount')))
                       exactQuote
      in \<lparr>numerator = numerator slippage, denominator = denominator slippage\<rparr>)"

text \<open>
  \<^verbatim>\<open>inputOutputComparator\<close>: the two invariants first, then more output first and,
  on equal outputs, less input first.
\<close>

definition inputOutputComparator ::
  "CurrencyAmount \<Rightarrow> CurrencyAmount \<Rightarrow> CurrencyAmount \<Rightarrow> CurrencyAmount \<Rightarrow> error + int" where
  "inputOutputComparator aIn aOut bIn bOut =
     (if \<not> currencyEquals (currency aIn) (currency bIn) then Inl (Invariant ''INPUT_CURRENCY'')
      else if \<not> currencyEquals (currency aOut) (currency bOut)
      then Inl (Invariant ''OUTPUT_CURRENCY'')
      else if frac_equalTo (amount_fraction aOut) (amount_fraction bOut) then
        (if frac_equalTo (amount_fraction aIn) (amount_fraction bIn) then Inr 0
         else if frac_lessThan (amount_fraction aIn) (amount_fraction bIn) then Inr (- 1)
         else Inr 1)
      else
        (if frac_lessThan (amount_fraction aOut) (amount_fraction bOut) then Inr 1
         else Inr (- 1)))"

definition tradeComparator :: "Trade \<Rightarrow> Trade \<Rightarrow> error + int" where
  "tradeComparator a b =
     (case inputOutputComparator (inputAmount a) (outputAmount a)
             (inputAmount b) (outputAmount b) of
        Inl e \<Rightarrow> Inl e
      | Inr ioComp \<Rightarrow>
          if ioComp \<noteq> 0 then Inr ioComp
          else if frac_lessThan (priceImpact a) (priceImpact b) then Inr (- 1)
          else if frac_greaterThan (priceImpact a) (priceImpact b) then Inr 1
          else Inr (int (length (path (route a))) - int (length (path (route b)))))"

text \<open>
  The ranking the specification describes, in its own words, to be compared with
  \<open>tradeComparator\<close>: the value of an amount is the rational number of its fraction;
  a trade ranks before another when it has the higher output; on equal outputs the lower
  input; on equal amounts the lower price impact; on equal price impact the fewer hops.
\<close>

definition amount_value :: "CurrencyAmount \<Rightarrow> rat" where
  "amount_value a = frac_value (amount_fraction a)"

definition spec_ranks_before :: "Trade \<Rightarrow> Trade \<Rightarrow> bool" where
  "spec_ranks_before a b =
     (amount_value (outputAmount a) > amount_value (outputAmount b) \<or>
      (amount_value (outputAmount a) = amount_value (outputAmount b) \<and>
       (amount_value (inputAmount a) < amount_value (inputAmount b) \<or>
        (amount_value (inputAmount a) = amount_value (inputAmount b) \<and>
         (frac_value (priceImpact a) < frac_value (priceImpact b) \<or>
          (frac_value (priceImpact a) = frac_value (priceImpact b) \<and>
           length (path (route a)) < length (path (route b))))))))"

text \<open>
  \<^verbatim>\<open>wrappedAmount\<close>; the table \<^verbatim>\<open>WETH\<close> of the wrapped native token of each
  chain is a parameter \<open>W\<close> of every function that reads it.
\<close>

definition wrappedAmount :: "(nat \<Rightarrow> Token) \<Rightarrow> CurrencyAmount \<Rightarrow> nat \<Rightarrow> error + TokenAmount" where
  "wrappedAmount W currencyAmount chain =
     (case currencyAmount of
        TokenAmt ta \<Rightarrow> Inr ta
      | PlainAmt c n \<Rightarrow>
          if c = ETHER then Inr \<lparr>token = W chain, raw = n\<rparr>
          else Inl (Invariant ''CURRENCY''))"

text \<open>
  The constructor of \<^verbatim>\<open>Trade\<close>. The loop of an exact-input trade walks the pairs
  of the route from the first, that of an exact-output trade from the last; each runs
  \<open>path.length - 1\<close> times, and reading a pair beyond the end of \<open>route.pairs\<close>
  yields \<^verbatim>\<open>undefined\<close>, whose method call raises. The amounts come back in path
  order, the pairs after the swaps in route order. A route whose path is not one longer
  than its pairs is no value the constructor of \<^verbatim>\<open>Route\<close> makes; on it the
  constructor of the route of the pairs after the swaps meets the unfilled slots of
  \<open>nextPairs\<close> and raises.
\<close>

fun amounts_exact_in :: "Pair list \<Rightarrow> nat \<Rightarrow> TokenAmount \<Rightarrow> error + (TokenAmount list \<times> Pair list)" where
  "amounts_exact_in ps 0 a = Inr ([a], [])"
| "amounts_exact_in [] (Suc n) a = Inl TypeError"
| "amounts_exact_in (p # ps) (Suc n) a =
     (case getOutputAmount p a of
        Inl e \<Rightarrow> Inl e
      | Inr (outputAmount', nextPair) \<Rightarrow>
          (case amounts_exact_in ps n outputAmount' of
             Inl e \<Rightarrow> Inl e
           | Inr (amounts, nextPairs) \<Rightarrow> Inr (a # amounts, nextPair # nextPairs)))"

fun amounts_exact_out :: "Pair list \<Rightarrow> TokenAmount \<Rightarrow> error + (TokenAmount list \<times> Pair list)" where
  "amounts_exact_out [] a = Inr ([a], [])"
| "amounts_exact_out (p # ps) a =
     (case getInputAmount p a of
        Inl e \<Rightarrow> Inl e
      | Inr (inputAmount', nextPair) \<Rightarrow>
          (case amounts_exact_out ps inputAmount' of
             Inl e \<Rightarrow> Inl e
           | Inr (amounts, nextPairs) \<Rightarrow> Inr (amounts @ [a], nextPairs @ [nextPair])))"

definition trade_amounts ::
  "(nat \<Rightarrow> Token) \<Rightarrow> Route \<Rightarrow> CurrencyAmount \<Rightarrow> TradeType \<Rightarrow> error + (TokenAmount list \<times> Pair list)" where
  "trade_amounts W r amount tt =
     (case tt of
        EXACT_INPUT \<Rightarrow>
          if \<not> (currencyEquals (currency amount) (TokenCurrency (input r)) \<or>
                 (currency amount = ETHER \<and>
                  token_equals (input r) (W (chainId (input r)))))
          then Inl (Invariant ''INPUT'')
          else (case wrappedAmount W amount (chainId (input r)) of
                  Inl e \<Rightarrow> Inl e
                | Inr a \<Rightarrow> amounts_exact_in (pairs r) (length (path r) - 1) a)
      | EXACT_OUTPUT \<Rightarrow>
          if \<not> (currencyEquals (currency amount) (TokenCurrency (route_output r)) \<or>
                 (currency amount = ETHER \<and>
                  token_equals (route_output r) (W (chainId (route_output r)))))
          then Inl (Invariant ''OUTPUT'')
          else (case wrappedAmount W amount (chainId (route_output r)) of
                  Inl e \<Rightarrow> Inl e
                | Inr a \<Rightarrow>
                    if length (pairs r) < length (path r) - 1 then Inl TypeError
                    else amounts_exact_out (rev (take (length (path r) - 1) (pairs r))) a))"

definition Trade_constructor ::
  "(nat \<Rightarrow> Token) \<Rightarrow> Route \<Rightarrow> CurrencyAmount \<Rightarrow> TradeType \<Rightarrow> error + Trade" where
  "Trade_constructor W r amount tt =
     (case trade_amounts W r amount tt of
        Inl e \<Rightarrow> Inl e
      | Inr (amounts, nextPairs) \<Rightarrow>
          if length nextPairs < length (pairs r) then Inl TypeError
          else (case Route_constructor nextPairs (input r) of
                  Inl e \<Rightarrow> Inl e
                | Inr nextRoute \<Rightarrow>
                    (case Price_fromRoute (pairs nextRoute) (path nextRoute) of
                       Inl e \<Rightarrow> Inl e
                     | Inr nmp \<Rightarrow>
                         Inr \<lparr>route = r, tradeType = tt,
                              inputAmount = TokenAmt (hd amounts),
                              outputAmount = TokenAmt (last amounts),
                              executionPrice =
                                Price_constructor (input r) (route_output r)
                                  (raw (hd amounts)) (raw (last amounts)),
                              nextMidPrice = nmp,
                              priceImpact =
                                computePriceImpact (midPrice r) (hd amounts) (last amounts)\<rparr>)))"

text \<open>
  The endpoint of the route a trade's amount is expected at, and the match the
  specification describes, in its own words: a token matches the endpoint it equals; the
  native asset matches exactly the endpoint that is the wrapped native token of its chain.
\<close>

definition endpoint :: "Route \<Rightarrow> TradeType \<Rightarrow> Token" where
  "endpoint r tt = (case tt of EXACT_INPUT \<Rightarrow> input r | EXACT_OUTPUT \<Rightarrow> route_output r)"

definition spec_matches_endpoint :: "(nat \<Rightarrow> Token) \<Rightarrow> Currency \<Rightarrow> Token \<Rightarrow> bool" where
  "spec_matches_endpoint W c e =
     (case c of
        TokenCurrency t \<Rightarrow> token_equals t e
      | ETHER \<Rightarrow> token_equals e (W (chainId e)))"

text \<open>
  \<^verbatim>\<open>new TokenAmount(token, raw)\<close> when the amount is a token amount,
  \<^verbatim>\<open>new CurrencyAmount(currency, raw)\<close> otherwise.
\<close>

fun with_raw :: "CurrencyAmount \<Rightarrow> int \<Rightarrow> CurrencyAmount" where
  "with_raw (TokenAmt ta) n = TokenAmt \<lparr>token = token ta, raw = n\<rparr>"
| "with_raw (PlainAmt c m) n = PlainAmt c n"

definition minimumAmountOut :: "Trade \<Rightarrow> Percent \<Rightarrow> error + CurrencyAmount" where
  "minimumAmountOut t slippageTolerance =
     (if frac_lessThan slippageTolerance ZERO then Inl (Invariant ''SLIPPAGE_TOLERANCE'')
      else if tradeType t = EXACT_OUTPUT then Inr (outputAmount t)
      else case frac_quotient
                  (frac_multiply (frac_invert (frac_add ONE slippageTolerance))
                     (of_bigint (amount_raw (outputAmount t)))) of
             Inl e \<Rightarrow> Inl e
           | Inr slippageAdjustedAmountOut \<Rightarrow>
               Inr (with_raw (outputAmount t) slippageAdjustedAmountOut))"

definition maximumAmountIn :: "Trade \<Rightarrow> Percent \<Rightarrow> error + CurrencyAmount" where
  "maximumAmountIn t slippageTolerance =
     (if frac_lessThan slippageTolerance ZERO then Inl (Invariant ''SLIPPAGE_TOLERANCE'')
      else if tradeType t = EXACT_INPUT then Inr (inputAmount t)
      else case frac_quotient
                  (frac_multiply (frac_add ONE slippageTolerance)
                     (of_bigint (amount_raw (inputAmount t)))) of
             Inl e \<Rightarrow> Inl e
           | Inr slippageAdjustedAmountIn \<Rightarrow>
               Inr (with_raw (inputAmount t) slippageAdjustedAmountIn))"

section \<open>The best-trade search\<close>

text \<open>
  Modelled from the spec: \<^verbatim>\<open>sortedInsert\<close> (\<^verbatim>\<open>utils.ts\<close>) is not among the
  sources. Section 4.5 of the specification: the trade is inserted into a bounded,
  ranked result list capped at \<open>maxNumResults\<close>, and the worst entry is discarded
  when the cap would be exceeded. The new item goes behind every entry that does not
  rank after it; a failure of the comparator is the failure of the insertion.
\<close>

fun insert_ranked :: "('a \<Rightarrow> 'a \<Rightarrow> error + int) \<Rightarrow> 'a \<Rightarrow> 'a list \<Rightarrow> error + 'a list" where
  "insert_ranked comparator add [] = Inr [add]"
| "insert_ranked comparator add (x # xs) =
     (case comparator x add of
        Inl e \<Rightarrow> Inl e
      | Inr c \<Rightarrow>
          if c \<le> 0
          then (case insert_ranked comparator add xs of
                  Inl e \<Rightarrow> Inl e
                | Inr ys \<Rightarrow> Inr (x # ys))
          else Inr (add # x # xs))"

definition sortedInsert ::
  "'a list \<Rightarrow> 'a \<Rightarrow> int \<Rightarrow> ('a \<Rightarrow> 'a \<Rightarrow> error + int) \<Rightarrow> error + 'a list" where
  "sortedInsert items add maxSize comparator =
     (case insert_ranked comparator add items of
        Inl e \<Rightarrow> Inl e
      | Inr ys \<Rightarrow> Inr (if int (length ys) > maxSize then butlast ys else ys))"

text \<open>
  \<^verbatim>\<open>Trade.bestTradeExactIn\<close>. The array \<open>bestTrades\<close> the source mutates in place
  and hands down the recursion is passed and returned; the function and the loop of its
  body are mutually recursive, the loop on its index \<open>i\<close>. The identity test
  \<^verbatim>\<open>originalAmountIn === amountIn\<close> is equality of values here.
\<close>

function bestTradeExactIn ::
    "(nat \<Rightarrow> Token) \<Rightarrow> Pair list \<Rightarrow> TokenAmount \<Rightarrow> Token \<Rightarrow> int \<Rightarrow> int \<Rightarrow> Pair list \<Rightarrow>
       TokenAmount \<Rightarrow> Trade list \<Rightarrow> error + Trade list"
  and bestTradeExactIn_loop ::
    "(nat \<Rightarrow> Token) \<Rightarrow> Pair list \<Rightarrow> nat \<Rightarrow> TokenAmount \<Rightarrow> Token \<Rightarrow> int \<Rightarrow> int \<Rightarrow>
       Pair list \<Rightarrow> TokenAmount \<Rightarrow> Trade list \<Rightarrow> error + Trade list"
where
  "bestTradeExactIn W prs amountIn tokenOut maxNumResults maxHops currentPairs
       originalAmountIn bestTrades =
     (if \<not> length prs > 0 then Inl (Invariant ''PAIRS'')
      else if \<not> maxHops > 0 then Inl (Invariant ''MAX_HOPS'')
      else if \<not> (originalAmountIn = amountIn \<or> length currentPairs > 0)
      then Inl (Invariant ''INVALID_RECURSION'')
      else bestTradeExactIn_loop W prs 0 amountIn tokenOut maxNumResults maxHops currentPairs
             originalAmountIn bestTrades)"
| "bestTradeExactIn_loop W prs i amountIn tokenOut maxNumResults maxHops currentPairs
       originalAmountIn bestTrades =
     (if \<not> i < length prs then Inr bestTrades
      else
        let pair = prs ! i in
        if \<not> token_equals (token0 pair) (token amountIn) \<and>
           \<not> token_equals (token1 pair) (token amountIn)
        then bestTradeExactIn_loop W prs (i + 1) amountIn tokenOut maxNumResults maxHops
               currentPairs originalAmountIn bestTrades
        else if reserve0 pair = 0 \<or> reserve1 pair = 0
        then bestTradeExactIn_loop W prs (i + 1) amountIn tokenOut maxNumResults maxHops
               currentPairs originalAmountIn bestTrades
        else
          (case getOutputAmount pair amountIn of
             Inl e \<Rightarrow>
               if e = InsufficientInputAmountError
               then bestTradeExactIn_loop W prs (i + 1) amountIn tokenOut maxNumResults maxHops
                      currentPairs originalAmountIn bestTrades
               else Inl e
           | Inr (amountOut, nextPair) \<Rightarrow>
               if token_equals (token amountOut) tokenOut then
                 (case Route_constructor (currentPairs @ [pair]) (token originalAmountIn) of
                    Inl e \<Rightarrow> Inl e
                  | Inr r \<Rightarrow>
                      (case Trade_constructor W r (TokenAmt originalAmountIn) EXACT_INPUT of
                         Inl e \<Rightarrow> Inl e
                       | Inr t \<Rightarrow>
                           (case sortedInsert bestTrades t maxNumResults tradeComparator of
                              Inl e \<Rightarrow> Inl e
                            | Inr bestTrades' \<Rightarrow>
                                bestTradeExactIn_loop W prs (i + 1) amountIn tokenOut
                                  maxNumResults maxHops currentPairs originalAmountIn
                                  bestTrades')))
               else if maxHops > 1 \<and> length prs > 1 then
                 (case bestTradeExactIn W (take i prs @ drop (i + 1) prs) amountOut tokenOut
                         maxNumResults (maxHops - 1) (currentPairs @ [pair]) originalAmountIn
                         bestTrades of
                    Inl e \<Rightarrow> Inl e
                  | Inr bestTrades' \<Rightarrow>
                      bestTradeExactIn_loop W prs (i + 1) amountIn tokenOut maxNumResults
                        maxHops currentPairs originalAmountIn bestTrades')
               else bestTradeExactIn_loop W prs (i + 1) amountIn tokenOut maxNumResults maxHops
                      currentPairs originalAmountIn bestTrades))"
  by pat_completeness auto
termination
  by (relation "measures
        [\<lambda>x. case x of Inl (W, prs, r) \<Rightarrow> length prs | Inr (W, prs, r) \<Rightarrow> length prs,
         \<lambda>x. case x of Inl (W, prs, r) \<Rightarrow> length prs + 1
                    | Inr (W, prs, i, r) \<Rightarrow> length prs - i]")
     auto

text \<open>
  \<^verbatim>\<open>Trade.bestTradeExactOut\<close>, the same search from the output backwards: the swap
  is \<open>getInputAmount\<close>, the failure it skips is \<open>InsufficientReservesError\<close>, and
  the chosen pair goes in front of the accumulated pairs.
\<close>

function bestTradeExactOut ::
    "(nat \<Rightarrow> Token) \<Rightarrow> Pair list \<Rightarrow> Token \<Rightarrow> TokenAmount \<Rightarrow> int \<Rightarrow> int \<Rightarrow> Pair list \<Rightarrow>
       TokenAmount \<Rightarrow> Trade list \<Rightarrow> error + Trade list"
  and bestTradeExactOut_loop ::
    "(nat \<Rightarrow> Token) \<Rightarrow> Pair list \<Rightarrow> nat \<Rightarrow> Token \<Rightarrow> TokenAmount \<Rightarrow> int \<Rightarrow> int \<Rightarrow>
       Pair list \<Rightarrow> TokenAmount \<Rightarrow> Trade list \<Rightarrow> error + Trade list"
where
  "bestTradeExactOut W prs tokenIn amountOut maxNumResults maxHops currentPairs
       originalAmountOut bestTrades =
     (if \<not> length prs > 0 then Inl (Invariant ''PAIRS'')
      else if \<not> maxHops > 0 then Inl (Invariant ''MAX_HOPS'')
      else if \<not> (originalAmountOut = amountOut \<or> length currentPairs > 0)
      then Inl (Invariant ''INVALID_RECURSION'')
      else bestTradeExactOut_loop W prs 0 tokenIn amountOut maxNumResults maxHops currentPairs
             originalAmountOut bestTrades)"
| "bestTradeExactOut_loop W prs i tokenIn amountOut maxNumResults maxHops currentPairs
       originalAmountOut bestTrades =
     (if \<not> i < length prs then Inr bestTrades
      else
        let pair = prs ! i in
        if \<not> token_equals (token0 pair) (token amountOut) \<and>
           \<not> token_equals (token1 pair) (token amountOut)
        then bestTradeExactOut_loop W prs (i + 1) tokenIn amountOut maxNumResults maxHops
               currentPairs originalAmountOut bestTrades
        else if reserve0 pair = 0 \<or> reserve1 pair = 0
        then bestTradeExactOut_loop W prs (i + 1) tokenIn amountOut maxNumResults maxHops
               currentPairs originalAmountOut bestTrades
        else
          (case getInputAmount pair amountOut of
             Inl e \<Rightarrow>
               if e = InsufficientReservesError
               then bestTradeExactOut_loop W prs (i + 1) tokenIn amountOut maxNumResults
                      maxHops currentPairs originalAmountOut bestTrades
               else Inl e
           | Inr (amountIn, nextPair) \<Rightarrow>
               if token_equals (token amountIn) tokenIn then
                 (case Route_constructor (pair # currentPairs) tokenIn of
                    Inl e \<Rightarrow> Inl e
                  | Inr r \<Rightarrow>
                      (case Trade_constructor W r (TokenAmt originalAmountOut) EXACT_OUTPUT of
                         Inl e \<Rightarrow> Inl e
                       | Inr t \<Rightarrow>
                           (case sortedInsert bestTrades t maxNumResults tradeComparator of
                              Inl e \<Rightarrow> Inl e
                            | Inr bestTrades' \<Rightarrow>
                                bestTradeExactOut_loop W prs (i + 1) tokenIn amountOut
                                  maxNumResults maxHops currentPairs originalAmountOut
                                  bestTrades')))
               else if maxHops > 1 \<and> length prs > 1 then
                 (case bestTradeExactOut W (take i prs @ drop (i + 1) prs) tokenIn amountIn
                         maxNumResults (maxHops - 1) (pair # currentPairs) originalAmountOut
                         bestTrades of
                    Inl e \<Rightarrow> Inl e
                  | Inr bestTrades' \<Rightarrow>
                      bestTradeExactOut_loop W prs (i + 1) tokenIn amountOut maxNumResults
                        maxHops currentPairs originalAmountOut bestTrades')
               else bestTradeExactOut_loop W prs (i + 1) tokenIn amountOut maxNumResults
                      maxHops currentPairs originalAmountOut bestTrades))"
  by pat_completeness auto
termination
  by (relation "measures
        [\<lambda>x. case x of Inl (W, prs, r) \<Rightarrow> length prs | Inr (W, prs, r) \<Rightarrow> length prs,
         \<lambda>x. case x of Inl (W, prs, r) \<Rightarrow> length prs + 1
                    | Inr (W, prs, i, r) \<Rightarrow> length prs - i]")
     auto

text \<open>
  The statements of lines 216 to 225 and of lines 285 to 290 on their own: the route over
  the accumulated pairs and the chosen one, its trade, and the insertion of the trade
  into the result list.
\<close>

definition found_exact_in ::
  "(nat \<Rightarrow> Token) \<Rightarrow> Pair list \<Rightarrow> TokenAmount \<Rightarrow> int \<Rightarrow> Trade list \<Rightarrow> error + Trade list" where
  "found_exact_in W route_pairs originalAmountIn maxNumResults bestTrades =
     (case Route_constructor route_pairs (token originalAmountIn) of
        Inl e \<Rightarrow> Inl e
      | Inr r \<Rightarrow>
          (case Trade_constructor W r (TokenAmt originalAmountIn) EXACT_INPUT of
             Inl e \<Rightarrow> Inl e
           | Inr t \<Rightarrow> sortedInsert bestTrades t maxNumResults tradeComparator))"

definition found_exact_out ::
  "(nat \<Rightarrow> Token) \<Rightarrow> Pair list \<Rightarrow> Token \<Rightarrow> TokenAmount \<Rightarrow> int \<Rightarrow> Trade list \<Rightarrow>
     error + Trade list" where
  "found_exact_out W route_pairs tokenIn originalAmountOut maxNumResults bestTrades =
     (case Route_constructor route_pairs tokenIn of
        Inl e \<Rightarrow> Inl e
      | Inr r \<Rightarrow>
          (case Trade_constructor W r (TokenAmt originalAmountOut) EXACT_OUTPUT of
             Inl e \<Rightarrow> Inl e
           | Inr t \<Rightarrow> sortedInsert bestTrades t maxNumResults tradeComparator))"

text \<open>What a call establishes: \<open>E\<close> of the error it raises, or \<open>L\<close> of the value it returns.\<close>

definition outcome :: "(error \<Rightarrow> bool) \<Rightarrow> ('a \<Rightarrow> bool) \<Rightarrow> error + 'a \<Rightarrow> bool" where
  "outcome E L r = (case r of Inl e \<Rightarrow> E e | Inr x \<Rightarrow> L x)"

text \<open>
  A trade stays within a budget when the pairs of its route are drawn from the multiset
  \<open>M\<close>, each at most as often as it occurs there, and are at most \<open>H\<close> many.
\<close>

definition within_budget :: "Pair multiset \<Rightarrow> int \<Rightarrow> Trade \<Rightarrow> bool" where
  "within_budget M H t =
     (mset (pairs (route t)) \<subseteq># M \<and> int (length (pairs (route t))) \<le> H)"

text \<open>The two liquidity failures of section 7 of the specification.\<close>

definition liquidity_failure :: "error \<Rightarrow> bool" where
  "liquidity_failure e = (e = InsufficientReservesError \<or> e = InsufficientInputAmountError)"

text \<open>
  What the search has done when it stands at a frontier amount with accumulated pairs:
  the swaps through the accumulated pairs, from the original amount on, have succeeded
  and ended at the frontier amount. For the search backwards the accumulated pairs are
  walked from the last, which was chosen first.
\<close>

definition walked_in :: "Pair list \<Rightarrow> TokenAmount \<Rightarrow> TokenAmount \<Rightarrow> bool" where
  "walked_in currentPairs originalAmountIn amountIn =
     (\<exists>amounts nextPairs.
        amounts_exact_in currentPairs (length currentPairs) originalAmountIn
          = Inr (amounts, nextPairs) \<and> last amounts = amountIn)"

definition walked_out :: "Pair list \<Rightarrow> TokenAmount \<Rightarrow> TokenAmount \<Rightarrow> bool" where
  "walked_out currentPairs originalAmountOut amountOut =
     (\<exists>amounts nextPairs.
        amounts_exact_out (rev currentPairs) originalAmountOut = Inr (amounts, nextPairs) \<and>
        hd amounts = amountOut)"


text \<open>
  The key of the ranking of the specification, ordered lexicographically: the negated
  output, the input, the price impact, the length of the path. A trade is comparable
  for an input token and an output token when its amounts are of these and the
  denominator of its price impact is positive.
\<close>

definition trade_key :: "Trade \<Rightarrow> rat \<times> rat \<times> rat \<times> nat" where
  "trade_key t =
     (- amount_value (outputAmount t), amount_value (inputAmount t),
      frac_value (priceImpact t), length (path (route t)))"

definition comparable :: "Token \<Rightarrow> Token \<Rightarrow> Trade \<Rightarrow> bool" where
  "comparable tin tout t =
     (currencyEquals (currency (inputAmount t)) (TokenCurrency tin) \<and>
      currencyEquals (currency (outputAmount t)) (TokenCurrency tout) \<and>
      0 < denominator (priceImpact t))"

text \<open>
  What the search keeps of its result list: at most \<open>maxNumResults\<close> entries, in the
  order of the keys, all comparable.
\<close>

definition kept :: "Token \<Rightarrow> Token \<Rightarrow> int \<Rightarrow> Trade list \<Rightarrow> bool" where
  "kept tin tout mnr ts =
     (int (length ts) \<le> mnr \<and> sorted (map trade_key ts) \<and> (\<forall>t\<in>set ts. comparable tin tout t))"




declare bestTradeExactIn.simps [simp del] bestTradeExactIn_loop.simps [simp del]
  bestTradeExactOut.simps [simp del] bestTradeExactOut_loop.simps [simp del]

section \<open>The search over a store of arrays\<close>

text \<open>
  The arrays of pairs that \<^verbatim>\<open>entities/trade.ts\<close> allocates, reads and writes, as a store: an
  array is named by its address, the store lists the arrays, and a slot of an array holds
  a pair or nothing (\<^verbatim>\<open>new Array(n)\<close> has \<open>n\<close> empty slots). \<open>alloc\<close> puts a new array at
  the next address, the length of the store. The only assignment to a slot of an array of
  pairs in the file is \<^verbatim>\<open>nextPairs[i] = nextPair\<close> (lines 123 and 136); an assignment past the
  end extends the array, as in JavaScript. Amounts and trades are values: the array
  \<^verbatim>\<open>amounts\<close> and the result list hold no pair and are kept as in the search above.
\<close>

type_synonym heap = "Pair option list list"

definition alloc :: "heap \<Rightarrow> Pair option list \<Rightarrow> heap" where
  "alloc h xs = h @ [xs]"

definition array_set :: "Pair option list \<Rightarrow> nat \<Rightarrow> Pair \<Rightarrow> Pair option list" where
  "array_set xs i v =
     (if i < length xs then xs[i := Some v]
      else xs @ replicate (i - length xs) None @ [Some v])"

definition heap_write :: "heap \<Rightarrow> nat \<Rightarrow> nat \<Rightarrow> Pair \<Rightarrow> heap" where
  "heap_write h r i v = h[r := array_set (h ! r) i v]"

text \<open>
  The two loops of the constructor of \<^verbatim>\<open>Trade\<close> (lines 119 to 124 and 132 to 137) with
  their writes to \<^verbatim>\<open>nextPairs\<close>: forwards slot \<open>i\<close> is written for the \<open>i\<close>-th pair,
  backwards slot \<open>i - 1\<close> for the pair \<open>i - 1\<close>, which is the number of pairs still to walk.
  A failing swap leaves the store as it is at that point.
\<close>

fun amounts_exact_in_st ::
  "heap \<Rightarrow> nat \<Rightarrow> nat \<Rightarrow> Pair list \<Rightarrow> nat \<Rightarrow> TokenAmount \<Rightarrow> heap" where
  "amounts_exact_in_st h nextPairs i ps 0 a = h"
| "amounts_exact_in_st h nextPairs i [] (Suc n) a = h"
| "amounts_exact_in_st h nextPairs i (p # ps) (Suc n) a =
     (case getOutputAmount p a of
        Inl e \<Rightarrow> h
      | Inr (outputAmount', nextPair) \<Rightarrow>
          amounts_exact_in_st (heap_write h nextPairs i nextPair) nextPairs (Suc i) ps n outputAmount')"

fun amounts_exact_out_st :: "heap \<Rightarrow> nat \<Rightarrow> Pair list \<Rightarrow> TokenAmount \<Rightarrow> heap" where
  "amounts_exact_out_st h nextPairs [] a = h"
| "amounts_exact_out_st h nextPairs (p # ps) a =
     (case getInputAmount p a of
        Inl e \<Rightarrow> h
      | Inr (inputAmount', nextPair) \<Rightarrow>
          amounts_exact_out_st (heap_write h nextPairs (length ps) nextPair) nextPairs ps inputAmount')"

text \<open>
  The constructor of \<^verbatim>\<open>Trade\<close> with its effects on the store: the array \<open>nextPairs\<close>
  is allocated with its slots empty (line 111) and filled by the loop.
\<close>

definition Trade_constructor_st ::
  "(nat \<Rightarrow> Token) \<Rightarrow> heap \<Rightarrow> Route \<Rightarrow> CurrencyAmount \<Rightarrow> TradeType \<Rightarrow> heap \<times> (error + Trade)" where
  "Trade_constructor_st W h r amount tt =
     (let nextPairs = length h;
          h1 = alloc h (replicate (length (pairs r)) None);
          h2 = (case tt of
                  EXACT_INPUT \<Rightarrow>
                    if \<not> (currencyEquals (currency amount) (TokenCurrency (input r)) \<or>
                           (currency amount = ETHER \<and>
                            token_equals (input r) (W (chainId (input r)))))
                    then h1
                    else (case wrappedAmount W amount (chainId (input r)) of
                            Inl e \<Rightarrow> h1
                          | Inr a \<Rightarrow>
                              amounts_exact_in_st h1 nextPairs 0 (pairs r) (length (path r) - 1) a)
                | EXACT_OUTPUT \<Rightarrow>
                    if \<not> (currencyEquals (currency amount) (TokenCurrency (route_output r)) \<or>
                           (currency amount = ETHER \<and>
                            token_equals (route_output r) (W (chainId (route_output r)))))
                    then h1
                    else (case wrappedAmount W amount (chainId (route_output r)) of
                            Inl e \<Rightarrow> h1
                          | Inr a \<Rightarrow>
                              if length (pairs r) < length (path r) - 1 then h1
                              else amounts_exact_out_st h1 nextPairs
                                     (rev (take (length (path r) - 1) (pairs r))) a))
      in (h2, Trade_constructor W r amount tt))"

text \<open>
  Lines 216 to 225: the route and the trade of a path that has arrived, read from the
  array \<open>routePairs\<close> that the caller has just allocated, and its insertion in the result
  list. An empty slot in the array is a failure to read a property of \<^verbatim>\<open>undefined\<close>.
\<close>

definition found_exact_in_st ::
  "(nat \<Rightarrow> Token) \<Rightarrow> heap \<Rightarrow> nat \<Rightarrow> TokenAmount \<Rightarrow> int \<Rightarrow> Trade list \<Rightarrow> heap \<times> (error + Trade list)" where
  "found_exact_in_st W h routePairs originalAmountIn maxNumResults bestTrades =
     (case those (h ! routePairs) of
        None \<Rightarrow> (h, Inl TypeError)
      | Some ps \<Rightarrow>
          (case Route_constructor ps (token originalAmountIn) of
             Inl e \<Rightarrow> (h, Inl e)
           | Inr r \<Rightarrow>
               (case Trade_constructor_st W h r (TokenAmt originalAmountIn) EXACT_INPUT of
                  (h', Inl e) \<Rightarrow> (h', Inl e)
                | (h', Inr t) \<Rightarrow> (h', sortedInsert bestTrades t maxNumResults tradeComparator))))"

text \<open>
  The arguments of a call of the search and the loop index: \<open>index = None\<close> is the entry of
  \<^verbatim>\<open>bestTradeExactIn\<close> (lines 194 to 196), \<open>index = Some i\<close> the loop at \<open>i\<close>. The arrays
  \<^verbatim>\<open>pairs\<close> and \<^verbatim>\<open>currentPairs\<close> are passed by address.
\<close>

record search =
  weth :: "nat \<Rightarrow> Token"
  heap_of :: heap
  pairs_ref :: nat
  index :: "nat option"
  max_num_results :: int
  max_hops :: int
  current_pairs_ref :: nat
  best_trades :: "Trade list"

record search_in = search +
  amount_in :: TokenAmount
  token_out :: Token
  original_amount_in :: TokenAmount

record search_out = search +
  token_in :: Token
  amount_out :: TokenAmount
  original_amount_out :: TokenAmount

text \<open>
  \<^verbatim>\<open>Trade.bestTradeExactIn\<close> on the store. \<^verbatim>\<open>[...currentPairs, pair]\<close> allocates an array
  (lines 219 and 238), \<^verbatim>\<open>pairs.slice(0, i)\<close>, \<^verbatim>\<open>pairs.slice(i + 1, pairs.length)\<close> and their
  \<^verbatim>\<open>concat\<close> allocate one each (line 227). An error of the inner call leaves the loop.
\<close>

partial_function (option) bestTradeExactIn_st ::
  "search_in \<Rightarrow> (heap \<times> (error + Trade list)) option" where
  "bestTradeExactIn_st s =
     (case index s of
        None \<Rightarrow>
          if \<not> length (heap_of s ! pairs_ref s) > 0
          then Some (heap_of s, Inl (Invariant ''PAIRS''))
          else if \<not> max_hops s > 0 then Some (heap_of s, Inl (Invariant ''MAX_HOPS''))
          else if \<not> (original_amount_in s = amount_in s \<or>
                       length (heap_of s ! current_pairs_ref s) > 0)
          then Some (heap_of s, Inl (Invariant ''INVALID_RECURSION''))
          else bestTradeExactIn_st (s\<lparr>index := Some 0\<rparr>)
      | Some i \<Rightarrow>
          if \<not> i < length (heap_of s ! pairs_ref s) then Some (heap_of s, Inr (best_trades s))
          else
            (case heap_of s ! pairs_ref s ! i of
               None \<Rightarrow> Some (heap_of s, Inl TypeError)
             | Some pair \<Rightarrow>
                 if \<not> token_equals (token0 pair) (token (amount_in s)) \<and>
                    \<not> token_equals (token1 pair) (token (amount_in s))
                 then bestTradeExactIn_st (s\<lparr>index := Some (i + 1)\<rparr>)
                 else if reserve0 pair = 0 \<or> reserve1 pair = 0
                 then bestTradeExactIn_st (s\<lparr>index := Some (i + 1)\<rparr>)
                 else
                   (case getOutputAmount pair (amount_in s) of
                      Inl e \<Rightarrow>
                        if e = InsufficientInputAmountError
                        then bestTradeExactIn_st (s\<lparr>index := Some (i + 1)\<rparr>)
                        else Some (heap_of s, Inl e)
                    | Inr (amountOut, nextPair) \<Rightarrow>
                        if token_equals (token amountOut) (token_out s) then
                          (let routePairs = length (heap_of s);
                               h1 = alloc (heap_of s)
                                      (heap_of s ! current_pairs_ref s @ [Some pair]);
                               found = found_exact_in_st (weth s) h1 routePairs
                                         (original_amount_in s) (max_num_results s)
                                         (best_trades s)
                           in case snd found of
                                Inl e \<Rightarrow> Some (fst found, Inl e)
                              | Inr bestTrades' \<Rightarrow>
                                  bestTradeExactIn_st
                                    (s\<lparr>heap_of := fst found, index := Some (i + 1),
                                       best_trades := bestTrades'\<rparr>))
                        else if max_hops s > 1 \<and> length (heap_of s ! pairs_ref s) > 1 then
                          (let front = length (heap_of s);
                               h1 = alloc (heap_of s) (take i (heap_of s ! pairs_ref s));
                               back = length h1;
                               h2 = alloc h1 (drop (i + 1) (h1 ! pairs_ref s));
                               pairsExcludingThisPair = length h2;
                               h3 = alloc h2 (h2 ! front @ h2 ! back);
                               currentPairs' = length h3;
                               h4 = alloc h3 (h3 ! current_pairs_ref s @ [Some pair])
                           in Option.bind
                                (bestTradeExactIn_st
                                   (s\<lparr>heap_of := h4, pairs_ref := pairsExcludingThisPair,
                                      index := None, amount_in := amountOut,
                                      max_hops := max_hops s - 1,
                                      current_pairs_ref := currentPairs'\<rparr>))
                                (\<lambda>deeper.
                                   case snd deeper of
                                     Inl e \<Rightarrow> Some (fst deeper, Inl e)
                                   | Inr bestTrades' \<Rightarrow>
                                       bestTradeExactIn_st
                                         (s\<lparr>heap_of := fst deeper, index := Some (i + 1),
                                            best_trades := bestTrades'\<rparr>)))
                        else bestTradeExactIn_st (s\<lparr>index := Some (i + 1)\<rparr>))))"


definition state_in ::
  "(nat \<Rightarrow> Token) \<Rightarrow> heap \<Rightarrow> nat \<Rightarrow> nat option \<Rightarrow> TokenAmount \<Rightarrow> Token \<Rightarrow> int \<Rightarrow> int \<Rightarrow> nat \<Rightarrow>
     TokenAmount \<Rightarrow> Trade list \<Rightarrow> search_in" where
  "state_in W h prs pos amountIn tokenOut maxNumResults maxHops currentPairs originalAmountIn
       bestTrades =
     \<lparr>weth = W, heap_of = h, pairs_ref = prs, index = pos, max_num_results = maxNumResults,
      max_hops = maxHops, current_pairs_ref = currentPairs, best_trades = bestTrades,
      amount_in = amountIn, token_out = tokenOut, original_amount_in = originalAmountIn\<rparr>"

text \<open>Lines 285 to 290, and \<^verbatim>\<open>Trade.bestTradeExactOut\<close> on the store, with
  \<^verbatim>\<open>[pair, ...currentPairs]\<close> for the new path (lines 287 and 303).\<close>

definition found_exact_out_st ::
  "(nat \<Rightarrow> Token) \<Rightarrow> heap \<Rightarrow> nat \<Rightarrow> Token \<Rightarrow> TokenAmount \<Rightarrow> int \<Rightarrow> Trade list \<Rightarrow>
     heap \<times> (error + Trade list)" where
  "found_exact_out_st W h routePairs tokenIn originalAmountOut maxNumResults bestTrades =
     (case those (h ! routePairs) of
        None \<Rightarrow> (h, Inl TypeError)
      | Some ps \<Rightarrow>
          (case Route_constructor ps tokenIn of
             Inl e \<Rightarrow> (h, Inl e)
           | Inr r \<Rightarrow>
               (case Trade_constructor_st W h r (TokenAmt originalAmountOut) EXACT_OUTPUT of
                  (h', Inl e) \<Rightarrow> (h', Inl e)
                | (h', Inr t) \<Rightarrow> (h', sortedInsert bestTrades t maxNumResults tradeComparator))))"

partial_function (option) bestTradeExactOut_st ::
  "search_out \<Rightarrow> (heap \<times> (error + Trade list)) option" where
  "bestTradeExactOut_st s =
     (case index s of
        None \<Rightarrow>
          if \<not> length (heap_of s ! pairs_ref s) > 0
          then Some (heap_of s, Inl (Invariant ''PAIRS''))
          else if \<not> max_hops s > 0 then Some (heap_of s, Inl (Invariant ''MAX_HOPS''))
          else if \<not> (original_amount_out s = amount_out s \<or>
                       length (heap_of s ! current_pairs_ref s) > 0)
          then Some (heap_of s, Inl (Invariant ''INVALID_RECURSION''))
          else bestTradeExactOut_st (s\<lparr>index := Some 0\<rparr>)
      | Some i \<Rightarrow>
          if \<not> i < length (heap_of s ! pairs_ref s) then Some (heap_of s, Inr (best_trades s))
          else
            (case heap_of s ! pairs_ref s ! i of
               None \<Rightarrow> Some (heap_of s, Inl TypeError)
             | Some pair \<Rightarrow>
                 if \<not> token_equals (token0 pair) (token (amount_out s)) \<and>
                    \<not> token_equals (token1 pair) (token (amount_out s))
                 then bestTradeExactOut_st (s\<lparr>index := Some (i + 1)\<rparr>)
                 else if reserve0 pair = 0 \<or> reserve1 pair = 0
                 then bestTradeExactOut_st (s\<lparr>index := Some (i + 1)\<rparr>)
                 else
                   (case getInputAmount pair (amount_out s) of
                      Inl e \<Rightarrow>
                        if e = InsufficientReservesError
                        then bestTradeExactOut_st (s\<lparr>index := Some (i + 1)\<rparr>)
                        else Some (heap_of s, Inl e)
                    | Inr (amountIn, nextPair) \<Rightarrow>
                        if token_equals (token amountIn) (token_in s) then
                          (let routePairs = length (heap_of s);
                               h1 = alloc (heap_of s)
                                      (Some pair # heap_of s ! current_pairs_ref s);
                               found = found_exact_out_st (weth s) h1 routePairs (token_in s)
                                         (original_amount_out s) (max_num_results s)
                                         (best_trades s)
                           in case snd found of
                                Inl e \<Rightarrow> Some (fst found, Inl e)
                              | Inr bestTrades' \<Rightarrow>
                                  bestTradeExactOut_st
                                    (s\<lparr>heap_of := fst found, index := Some (i + 1),
                                       best_trades := bestTrades'\<rparr>))
                        else if max_hops s > 1 \<and> length (heap_of s ! pairs_ref s) > 1 then
                          (let front = length (heap_of s);
                               h1 = alloc (heap_of s) (take i (heap_of s ! pairs_ref s));
                               back = length h1;
                               h2 = alloc h1 (drop (i + 1) (h1 ! pairs_ref s));
                               pairsExcludingThisPair = length h2;
                               h3 = alloc h2 (h2 ! front @ h2 ! back);
                               currentPairs' = length h3;
                               h4 = alloc h3 (Some pair # h3 ! current_pairs_ref s)
                           in Option.bind
                                (bestTradeExactOut_st
                                   (s\<lparr>heap_of := h4, pairs_ref := pairsExcludingThisPair,
                                      index := None, amount_out := amountIn,
                                      max_hops := max_hops s - 1,
                                      current_pairs_ref := currentPairs'\<rparr>))
                                (\<lambda>deeper.
                                   case snd deeper of
                                     Inl e \<Rightarrow> Some (fst deeper, Inl e)
                                   | Inr bestTrades' \<Rightarrow>
                                       bestTradeExactOut_st
                                         (s\<lparr>heap_of := fst deeper, index := Some (i + 1),
                                            best_trades := bestTrades'\<rparr>)))
                        else bestTradeExactOut_st (s\<lparr>index := Some (i + 1)\<rparr>))))"


definition state_out ::
  "(nat \<Rightarrow> Token) \<Rightarrow> heap \<Rightarrow> nat \<Rightarrow> nat option \<Rightarrow> Token \<Rightarrow> TokenAmount \<Rightarrow> int \<Rightarrow> int \<Rightarrow> nat \<Rightarrow>
     TokenAmount \<Rightarrow> Trade list \<Rightarrow> search_out" where
  "state_out W h prs pos tokenIn amountOut maxNumResults maxHops currentPairs originalAmountOut
       bestTrades =
     \<lparr>weth = W, heap_of = h, pairs_ref = prs, index = pos, max_num_results = maxNumResults,
      max_hops = maxHops, current_pairs_ref = currentPairs, best_trades = bestTrades,
      token_in = tokenIn, amount_out = amountOut, original_amount_out = originalAmountOut\<rparr>"

text \<open>
  \<open>frame h h'\<close>: every array of \<open>h\<close> is in \<open>h'\<close> at its address with the same slots;
  \<open>h'\<close> may have more arrays. \<open>holds h r ps\<close>: the array at \<open>r\<close> is \<open>ps\<close>, no slot empty.
\<close>

definition frame :: "heap \<Rightarrow> heap \<Rightarrow> bool" where
  "frame h h' = (length h \<le> length h' \<and> (\<forall>a<length h. h' ! a = h ! a))"

definition holds :: "heap \<Rightarrow> nat \<Rightarrow> Pair list \<Rightarrow> bool" where
  "holds h r ps = (r < length h \<and> h ! r = map Some ps)"

section \<open>A small market\<close>

text \<open>
  Three tokens on chain 1 and the wrapped native token; pools between them. The pool
  \<open>pairAB\<close> is the one of section 8 of the specification (both reserves 1000).
\<close>

definition WETH :: "nat \<Rightarrow> Token" where
  "WETH c = \<lparr>chainId = c, address = ''0xWETH'', decimals = 18\<rparr>"

definition tokenA :: Token where
  "tokenA = \<lparr>chainId = 1, address = ''0xA'', decimals = 18\<rparr>"

definition tokenB :: Token where
  "tokenB = \<lparr>chainId = 1, address = ''0xB'', decimals = 18\<rparr>"

definition tokenC :: Token where
  "tokenC = \<lparr>chainId = 1, address = ''0xC'', decimals = 18\<rparr>"

definition pairAB :: Pair where
  "pairAB = \<lparr>token0 = tokenA, token1 = tokenB, reserve0 = 1000, reserve1 = 1000\<rparr>"

definition pairBC :: Pair where
  "pairBC = \<lparr>token0 = tokenB, token1 = tokenC, reserve0 = 1000, reserve1 = 1000\<rparr>"

definition pairAC :: Pair where
  "pairAC = \<lparr>token0 = tokenA, token1 = tokenC, reserve0 = 1000, reserve1 = 1100\<rparr>"

definition amountA100 :: TokenAmount where
  "amountA100 = \<lparr>token = tokenA, raw = 100\<rparr>"

definition amountC100 :: TokenAmount where
  "amountC100 = \<lparr>token = tokenC, raw = 100\<rparr>"

definition routeAC :: Route where
  "routeAC = \<lparr>pairs = [pairAC], path = [tokenA, tokenC], input = tokenA,
               route_output = tokenC, midPrice = Price_constructor tokenA tokenC 1000 1100\<rparr>"

definition routeABC :: Route where
  "routeABC = \<lparr>pairs = [pairAB, pairBC], path = [tokenA, tokenB, tokenC], input = tokenA,
                route_output = tokenC,
                midPrice = Price_constructor tokenA tokenC 1000000 1000000\<rparr>"

text \<open>Selling 100 of A for C, directly and through B; buying 100 of C with A, directly.\<close>

definition tradeAC :: Trade where
  "tradeAC = \<lparr>route = routeAC, tradeType = EXACT_INPUT,
               inputAmount = TokenAmt amountA100,
               outputAmount = TokenAmt \<lparr>token = tokenC, raw = 99\<rparr>,
               executionPrice = Price_constructor tokenA tokenC 100 99,
               nextMidPrice = Price_constructor tokenA tokenC 1100 1001,
               priceImpact = \<lparr>numerator = 11000000, denominator = 110000000\<rparr>\<rparr>"

definition tradeABC :: Trade where
  "tradeABC = \<lparr>route = routeABC, tradeType = EXACT_INPUT,
                inputAmount = TokenAmt amountA100,
                outputAmount = TokenAmt \<lparr>token = tokenC, raw = 82\<rparr>,
                executionPrice = Price_constructor tokenA tokenC 100 82,
                nextMidPrice = Price_constructor tokenA tokenC 1199000 835380,
                priceImpact = \<lparr>numerator = 18000000000000,
                                denominator = 100000000000000\<rparr>\<rparr>"

definition tradeAC_out :: Trade where
  "tradeAC_out = \<lparr>route = routeAC, tradeType = EXACT_OUTPUT,
                   inputAmount = TokenAmt \<lparr>token = tokenA, raw = 101\<rparr>,
                   outputAmount = TokenAmt amountC100,
                   executionPrice = Price_constructor tokenA tokenC 101 100,
                   nextMidPrice = Price_constructor tokenA tokenC 1101 1000,
                   priceImpact = \<lparr>numerator = 11100000, denominator = 111100000\<rparr>\<rparr>"

text \<open>A pool of A against the wrapped native token, and the route from the latter to A.\<close>

definition pairAW :: Pair where
  "pairAW = \<lparr>token0 = tokenA, token1 = WETH 1, reserve0 = 1000, reserve1 = 1000\<rparr>"

definition routeWA :: Route where
  "routeWA = \<lparr>pairs = [pairAW], path = [WETH 1, tokenA], input = WETH 1,
               route_output = tokenA, midPrice = Price_constructor (WETH 1) tokenA 1000 1000\<rparr>"

definition tradeABC_out :: Trade where
  "tradeABC_out = \<lparr>route = routeABC, tradeType = EXACT_OUTPUT,
                    inputAmount = TokenAmt \<lparr>token = tokenA, raw = 127\<rparr>,
                    outputAmount = TokenAmt amountC100,
                    executionPrice = Price_constructor tokenA tokenC 127 100,
                    nextMidPrice = Price_constructor tokenA tokenC 1253224 799200,
                    priceImpact = \<lparr>numerator = 27000000000000,
                                    denominator = 127000000000000\<rparr>\<rparr>"

definition market :: "Pair list" where
  "market = [pairAB, pairBC, pairAC]"

definition amountA1 :: TokenAmount where
  "amountA1 = \<lparr>token = tokenA, raw = 1\<rparr>"

definition amountC1000 :: TokenAmount where
  "amountC1000 = \<lparr>token = tokenC, raw = 1000\<rparr>"

definition percent :: "int \<Rightarrow> Percent" where
  "percent n = \<lparr>numerator = n, denominator = 100\<rparr>"

section \<open>Properties: exact fractions and truncation\<close>

lemmas market_defs = WETH_def tokenA_def tokenB_def tokenC_def pairAB_def pairBC_def pairAC_def
  amountA100_def amountC100_def routeAC_def routeABC_def pairAW_def routeWA_def

lemma truncate_rat_divide_nonneg:
  assumes "0 \<le> a" "0 < b"
  shows "truncate_rat (of_int a / of_int b) = a div b"
  using assms by (simp add: truncate_rat_def floor_divide_of_int_eq)

lemma floor_rat_numeral: "\<lfloor>numeral a / numeral b :: rat\<rfloor> = numeral a div numeral b"
  using floor_divide_of_int_eq[of "numeral a" "numeral b", where ?'a = rat] by simp

lemma truncate_rat_minus: "truncate_rat (- x) = - truncate_rat x"
  by (auto simp: truncate_rat_def ceiling_def  dest: antisym)

lemma bigint_divide_truncate:
  assumes "b \<noteq> 0"
  shows "bigint_divide a b = Inr (truncate_rat (of_int a / of_int b))"
proof -
  have abs: "truncate_rat (of_int \<bar>a\<bar> / of_int \<bar>b\<bar>) = \<bar>a\<bar> div \<bar>b\<bar>"
    using assms by (intro truncate_rat_divide_nonneg) auto
  consider (pp) "0 \<le> a" "0 < b" | (np) "a < 0" "0 < b" | (pn) "0 \<le> a" "b < 0" | (nn) "a < 0" "b < 0"
    using assms by linarith
  then have "sgn a * sgn b * (\<bar>a\<bar> div \<bar>b\<bar>) = truncate_rat (of_int a / of_int b)"
  proof cases
    case pp
    then show ?thesis using abs by (cases "a = 0") (simp_all add: truncate_rat_def)
  next
    case np
    then have "(of_int a :: rat) / of_int b = - (of_int \<bar>a\<bar> / of_int \<bar>b\<bar>)" by simp
    then show ?thesis using np abs by (simp only: truncate_rat_minus) simp
  next
    case pn
    then have "(of_int a :: rat) / of_int b = - (of_int \<bar>a\<bar> / of_int \<bar>b\<bar>)" by simp
    then show ?thesis using pn abs by (cases "a = 0") (simp_all only: truncate_rat_minus, simp_all add: truncate_rat_def)
  next
    case nn
    then have "(of_int a :: rat) / of_int b = (of_int \<bar>a\<bar> / of_int \<bar>b\<bar>)" by simp
    then show ?thesis using nn abs by simp
  qed
  then show ?thesis using assms by (simp add: bigint_divide_def)
qed

lemma frac_value_less_iff:
  assumes "0 < denominator a" "0 < denominator b"
  shows "frac_lessThan a b \<longleftrightarrow> frac_value a < frac_value b"
  using assms by (simp add: frac_lessThan_def frac_value_def divide_simps mult.commute flip: of_int_mult)

lemma frac_value_eq_iff:
  assumes "0 < denominator a" "0 < denominator b"
  shows "frac_equalTo a b \<longleftrightarrow> frac_value a = frac_value b"
  using assms
  by (simp add: frac_equalTo_def frac_value_def divide_simps mult.commute flip: of_int_mult)

lemma frac_value_greater_iff:
  assumes "0 < denominator a" "0 < denominator b"
  shows "frac_greaterThan a b \<longleftrightarrow> frac_value a > frac_value b"
  using assms by (simp add: frac_greaterThan_def frac_value_def divide_simps mult.commute flip: of_int_mult)

lemma tolerance_negative_iff:
  assumes "0 < denominator tol"
  shows "frac_lessThan tol ZERO \<longleftrightarrow> frac_value tol < 0"
  using assms by (simp add: frac_lessThan_def ZERO_def frac_value_def divide_simps)

lemma one_plus_tolerance:
  assumes "0 < denominator tol"
  shows "frac_value (frac_add ONE tol) = 1 + frac_value tol"
    and "0 < denominator (frac_add ONE tol)"
  using assms by (auto simp: frac_add_def ONE_def frac_value_def divide_simps)

lemma maximumAmountIn_exact_output:
  assumes d: "0 < denominator tol" and nn: "0 \<le> frac_value tol" and tt: "tradeType t = EXACT_OUTPUT"
  shows "maximumAmountIn t tol =
           Inr (with_raw (inputAmount t)
                  (truncate_rat (of_int (amount_raw (inputAmount t)) * (1 + frac_value tol))))"
proof -
  let ?s = "frac_add ONE tol"
  let ?m = "frac_multiply ?s (of_bigint (amount_raw (inputAmount t)))"
  have dm: "denominator ?m \<noteq> 0"
    using one_plus_tolerance(2)[OF d] by (simp add: frac_multiply_def of_bigint_def)
  have "(of_int (numerator ?m) :: rat) / of_int (denominator ?m) =
          of_int (amount_raw (inputAmount t)) * frac_value ?s"
    by (simp add: frac_multiply_def of_bigint_def frac_value_def)
  then have "frac_quotient ?m =
          Inr (truncate_rat (of_int (amount_raw (inputAmount t)) * (1 + frac_value tol)))"
    using bigint_divide_truncate[OF dm] one_plus_tolerance(1)[OF d]
    by (simp add: frac_quotient_def)
  moreover have "\<not> frac_lessThan tol ZERO"
    using tolerance_negative_iff[OF d] nn by simp
  ultimately show ?thesis using tt by (simp add: maximumAmountIn_def)
qed

text \<open>
  Claim C5. With a tolerance whose sign lives in its numerator (a positive denominator),
  \<open>maximumAmountIn\<close> fails on a negative tolerance; on an exact-input trade it returns
  the input amount as it is; on an exact-output trade it returns the amount of the same
  currency whose raw value is the input's raw value times one plus the tolerance, as an
  exact rational, truncated toward zero.
\<close>

theorem maximumAmountIn_spec:
  "0 < denominator tol \<Longrightarrow>
     (frac_value tol < 0 \<longrightarrow> maximumAmountIn t tol = Inl (Invariant ''SLIPPAGE_TOLERANCE'')) \<and>
     (0 \<le> frac_value tol \<and> tradeType t = EXACT_INPUT \<longrightarrow>
        maximumAmountIn t tol = Inr (inputAmount t)) \<and>
     (0 \<le> frac_value tol \<and> tradeType t = EXACT_OUTPUT \<longrightarrow>
        maximumAmountIn t tol =
          Inr (with_raw (inputAmount t)
                 (truncate_rat (of_int (amount_raw (inputAmount t)) * (1 + frac_value tol)))))"
  using maximumAmountIn_exact_output[of tol t] tolerance_negative_iff[of tol]
  by (auto simp: maximumAmountIn_def)

theorem maximumAmountIn_spec_witness:
  "0 < denominator (percent 5) \<and> 0 \<le> frac_value (percent 5) \<and>
   tradeType tradeAC_out = EXACT_OUTPUT \<and>
   maximumAmountIn tradeAC_out (percent 5) = Inr (TokenAmt \<lparr>token = tokenA, raw = 106\<rparr>) \<and>
   tradeType tradeAC = EXACT_INPUT \<and>
   maximumAmountIn tradeAC (percent 5) = Inr (TokenAmt amountA100) \<and>
   frac_value (percent (- 5)) < 0 \<and>
   maximumAmountIn tradeAC_out (percent (- 5)) = Inl (Invariant ''SLIPPAGE_TOLERANCE'')"
  using maximumAmountIn_spec[of "percent 5" tradeAC_out]
    maximumAmountIn_spec[of "percent 5" tradeAC]
    maximumAmountIn_spec[of "percent (- 5)" tradeAC_out]
  by (simp add: percent_def frac_value_def tradeAC_out_def tradeAC_def truncate_rat_def
      floor_rat_numeral)

lemma minimumAmountOut_exact_input:
  assumes d: "0 < denominator tol" and nn: "0 \<le> frac_value tol" and tt: "tradeType t = EXACT_INPUT"
  shows "minimumAmountOut t tol =
           Inr (with_raw (outputAmount t)
                  (truncate_rat (of_int (amount_raw (outputAmount t)) / (1 + frac_value tol))))"
proof -
  let ?s = "frac_add ONE tol"
  let ?m = "frac_multiply (frac_invert ?s) (of_bigint (amount_raw (outputAmount t)))"
  have pos: "0 < frac_value ?s" using one_plus_tolerance(1)[OF d] nn by simp
  then have "0 < numerator ?s"
    using one_plus_tolerance(2)[OF d] by (simp add: frac_value_def zero_less_divide_iff)
  then have dm: "denominator ?m \<noteq> 0"
    by (simp add: frac_multiply_def frac_invert_def of_bigint_def)
  have "(of_int (numerator ?m) :: rat) / of_int (denominator ?m) =
          of_int (amount_raw (outputAmount t)) / frac_value ?s"
    by (simp add: frac_multiply_def frac_invert_def of_bigint_def frac_value_def)
  then have "frac_quotient ?m =
          Inr (truncate_rat (of_int (amount_raw (outputAmount t)) / (1 + frac_value tol)))"
    using bigint_divide_truncate[OF dm] one_plus_tolerance(1)[OF d]
    by (simp add: frac_quotient_def)
  moreover have "\<not> frac_lessThan tol ZERO"
    using tolerance_negative_iff[OF d] nn by simp
  ultimately show ?thesis using tt by (simp add: minimumAmountOut_def)
qed

text \<open>
  Claim C6. With a tolerance of positive denominator, \<open>minimumAmountOut\<close> fails on a
  negative tolerance; on an exact-output trade it returns the output amount as it is; on
  an exact-input trade it returns the amount of the same currency whose raw value is the
  output's raw value divided by one plus the tolerance, truncated toward zero.
\<close>

theorem minimumAmountOut_spec:
  "0 < denominator tol \<Longrightarrow>
     (frac_value tol < 0 \<longrightarrow> minimumAmountOut t tol = Inl (Invariant ''SLIPPAGE_TOLERANCE'')) \<and>
     (0 \<le> frac_value tol \<and> tradeType t = EXACT_OUTPUT \<longrightarrow>
        minimumAmountOut t tol = Inr (outputAmount t)) \<and>
     (0 \<le> frac_value tol \<and> tradeType t = EXACT_INPUT \<longrightarrow>
        minimumAmountOut t tol =
          Inr (with_raw (outputAmount t)
                 (truncate_rat (of_int (amount_raw (outputAmount t)) / (1 + frac_value tol)))))"
  using minimumAmountOut_exact_input[of tol t] tolerance_negative_iff[of tol]
  by (auto simp: minimumAmountOut_def)

theorem minimumAmountOut_spec_witness:
  "0 < denominator (percent 5) \<and> 0 \<le> frac_value (percent 5) \<and>
   tradeType tradeAC = EXACT_INPUT \<and>
   minimumAmountOut tradeAC (percent 5) = Inr (TokenAmt \<lparr>token = tokenC, raw = 94\<rparr>) \<and>
   tradeType tradeAC_out = EXACT_OUTPUT \<and>
   minimumAmountOut tradeAC_out (percent 5) = Inr (TokenAmt amountC100) \<and>
   frac_value (percent (- 5)) < 0 \<and>
   minimumAmountOut tradeAC (percent (- 5)) = Inl (Invariant ''SLIPPAGE_TOLERANCE'')"
  using minimumAmountOut_spec[of "percent 5" tradeAC]
    minimumAmountOut_spec[of "percent 5" tradeAC_out]
    minimumAmountOut_spec[of "percent (- 5)" tradeAC]
  by (simp add: percent_def frac_value_def tradeAC_out_def tradeAC_def truncate_rat_def
      floor_rat_numeral)

lemma truncate_rat_mono: "x \<le> y \<Longrightarrow> truncate_rat x \<le> truncate_rat y"
  unfolding truncate_rat_def
  by (auto intro: floor_mono ceiling_mono) (meson ceiling_le_zero floor_mono le_floor_iff order_trans  zero_le_floor less_imp_le not_le)

lemma amount_raw_with_raw [simp]: "amount_raw (with_raw a n) = n"
  by (cases a) simp_all

text \<open>
  Claim C7. For an exact-input trade with a non-negative output and two tolerances
  \<open>0 \<le> t1 \<le> t2\<close>, both calls return and the raw value for \<open>t2\<close> is at most the raw
  value for \<open>t1\<close>; on a negative tolerance the call fails.
\<close>

theorem minimumAmountOut_monotone:
  "0 < denominator t1 \<Longrightarrow> 0 < denominator t2 \<Longrightarrow>
     (frac_value t1 < 0 \<longrightarrow> minimumAmountOut t t1 = Inl (Invariant ''SLIPPAGE_TOLERANCE'')) \<and>
     (tradeType t = EXACT_INPUT \<and> 0 \<le> amount_raw (outputAmount t) \<and>
      0 \<le> frac_value t1 \<and> frac_value t1 \<le> frac_value t2 \<longrightarrow>
        (\<exists>a1 a2. minimumAmountOut t t1 = Inr a1 \<and> minimumAmountOut t t2 = Inr a2 \<and>
                  amount_raw a2 \<le> amount_raw a1))"
proof (intro conjI impI)
  assume d: "0 < denominator t1" and "frac_value t1 < 0"
  then show "minimumAmountOut t t1 = Inl (Invariant ''SLIPPAGE_TOLERANCE'')"
    using tolerance_negative_iff[OF d] by (simp add: minimumAmountOut_def)
next
  assume d1: "0 < denominator t1" and d2: "0 < denominator t2"
    and h: "tradeType t = EXACT_INPUT \<and> 0 \<le> amount_raw (outputAmount t) \<and>
      0 \<le> frac_value t1 \<and> frac_value t1 \<le> frac_value t2"
  let ?r = "of_int (amount_raw (outputAmount t)) :: rat"
  have "?r / (1 + frac_value t2) \<le> ?r / (1 + frac_value t1)"
    using h by (intro divide_left_mono) (auto intro: mult_pos_pos)
  then have "truncate_rat (?r / (1 + frac_value t2)) \<le> truncate_rat (?r / (1 + frac_value t1))"
    by (rule truncate_rat_mono)
  then show "\<exists>a1 a2. minimumAmountOut t t1 = Inr a1 \<and> minimumAmountOut t t2 = Inr a2 \<and>
                  amount_raw a2 \<le> amount_raw a1"
    using minimumAmountOut_exact_input[OF d1, of t] minimumAmountOut_exact_input[OF d2, of t] h
    by simp
qed

theorem minimumAmountOut_monotone_witness:
  "0 < denominator (percent 1) \<and> 0 < denominator (percent 5) \<and>
   tradeType tradeAC = EXACT_INPUT \<and> 0 \<le> amount_raw (outputAmount tradeAC) \<and>
   0 \<le> frac_value (percent 1) \<and> frac_value (percent 1) \<le> frac_value (percent 5) \<and>
   (\<exists>a1 a2. minimumAmountOut tradeAC (percent 1) = Inr a1 \<and>
      minimumAmountOut tradeAC (percent 5) = Inr a2 \<and> amount_raw a2 \<le> amount_raw a1) \<and>
   frac_value (percent (- 1)) < 0 \<and>
   minimumAmountOut tradeAC (percent (- 1)) = Inl (Invariant ''SLIPPAGE_TOLERANCE'')"
  using minimumAmountOut_monotone[of "percent 1" "percent 5" tradeAC]
    minimumAmountOut_monotone[of "percent (- 1)" "percent 5" tradeAC]
  by (simp add: percent_def frac_value_def tradeAC_def)

lemma amount_fraction_denominator_pos [simp]: "0 < denominator (amount_fraction a)"
  by (simp add: amount_fraction_def)

lemma amount_equalTo_iff:
  "frac_equalTo (amount_fraction a) (amount_fraction b) \<longleftrightarrow> amount_value a = amount_value b"
  by (simp add: frac_value_eq_iff amount_value_def)

lemma amount_lessThan_iff:
  "frac_lessThan (amount_fraction a) (amount_fraction b) \<longleftrightarrow> amount_value a < amount_value b"
  by (simp add: frac_value_less_iff amount_value_def)

lemma inputOutputComparator_value:
  assumes "currencyEquals (currency aIn) (currency bIn)"
    and "currencyEquals (currency aOut) (currency bOut)"
  shows "inputOutputComparator aIn aOut bIn bOut =
           Inr (if amount_value aOut = amount_value bOut
                then (if amount_value aIn = amount_value bIn then 0
                      else if amount_value aIn < amount_value bIn then - 1 else 1)
                else if amount_value aOut < amount_value bOut then 1 else - 1)"
  using assms by (simp add: inputOutputComparator_def amount_equalTo_iff amount_lessThan_iff)

lemma tradeComparator_value:
  assumes "currencyEquals (currency (inputAmount a)) (currency (inputAmount b))"
    and "currencyEquals (currency (outputAmount a)) (currency (outputAmount b))"
    and "0 < denominator (priceImpact a)" and "0 < denominator (priceImpact b)"
  shows "\<exists>r. tradeComparator a b = Inr r \<and> (r < 0 \<longleftrightarrow> spec_ranks_before a b) \<and>
              (0 < r \<longleftrightarrow> spec_ranks_before b a)"
  using assms(3,4)
  by (auto simp: tradeComparator_def inputOutputComparator_value[OF assms(1,2)]
        spec_ranks_before_def frac_value_less_iff frac_value_greater_iff)

text \<open>
  Claim C3. \<open>tradeComparator\<close> fails when the input currencies or the output currencies
  of the two trades differ. When they agree (and the price impacts have positive
  denominators) it returns a number that is negative exactly when the first trade ranks
  before the second in the order of the specification (higher output, then lower input,
  then lower price impact, then fewer hops) and positive exactly when the second ranks
  before the first.
\<close>

theorem tradeComparator_spec:
  "(\<not> currencyEquals (currency (inputAmount a)) (currency (inputAmount b)) \<longrightarrow>
      tradeComparator a b = Inl (Invariant ''INPUT_CURRENCY'')) \<and>
   (currencyEquals (currency (inputAmount a)) (currency (inputAmount b)) \<and>
    \<not> currencyEquals (currency (outputAmount a)) (currency (outputAmount b)) \<longrightarrow>
      tradeComparator a b = Inl (Invariant ''OUTPUT_CURRENCY'')) \<and>
   (currencyEquals (currency (inputAmount a)) (currency (inputAmount b)) \<and>
    currencyEquals (currency (outputAmount a)) (currency (outputAmount b)) \<and>
    0 < denominator (priceImpact a) \<and> 0 < denominator (priceImpact b) \<longrightarrow>
      (\<exists>r. tradeComparator a b = Inr r \<and> (r < 0 \<longleftrightarrow> spec_ranks_before a b) \<and>
           (0 < r \<longleftrightarrow> spec_ranks_before b a)))"
  using tradeComparator_value[of a b]
  by (auto simp: tradeComparator_def inputOutputComparator_def)

theorem tradeComparator_spec_witness:
  "currencyEquals (currency (inputAmount tradeAC)) (currency (inputAmount tradeABC)) \<and>
   currencyEquals (currency (outputAmount tradeAC)) (currency (outputAmount tradeABC)) \<and>
   0 < denominator (priceImpact tradeAC) \<and> 0 < denominator (priceImpact tradeABC) \<and>
   spec_ranks_before tradeAC tradeABC \<and>
   (\<exists>r. tradeComparator tradeAC tradeABC = Inr r \<and> r < 0) \<and>
   \<not> currencyEquals (currency (inputAmount tradeAC)) (currency (outputAmount tradeAC)) \<and>
   tradeComparator tradeAC (tradeAC\<lparr>inputAmount := outputAmount tradeAC\<rparr>) =
     Inl (Invariant ''INPUT_CURRENCY'') \<and>
   tradeComparator tradeAC (tradeAC\<lparr>outputAmount := inputAmount tradeAC\<rparr>) =
     Inl (Invariant ''OUTPUT_CURRENCY'')"
proof -
  have ce: "currencyEquals (currency (inputAmount tradeAC)) (currency (inputAmount tradeABC))"
    "currencyEquals (currency (outputAmount tradeAC)) (currency (outputAmount tradeABC))"
    "\<not> currencyEquals (currency (inputAmount tradeAC)) (currency (outputAmount tradeAC))"
    by (simp_all add: tradeAC_def tradeABC_def market_defs token_equals_def)
  have dn: "0 < denominator (priceImpact tradeAC)" "0 < denominator (priceImpact tradeABC)"
    by (simp_all add: tradeAC_def tradeABC_def)
  have rk: "spec_ranks_before tradeAC tradeABC"
    by (simp add: spec_ranks_before_def amount_value_def amount_fraction_def frac_value_def
        tradeAC_def tradeABC_def market_defs)
  have nrk: "\<not> spec_ranks_before tradeABC tradeAC"
    by (simp add: spec_ranks_before_def amount_value_def amount_fraction_def frac_value_def
        tradeAC_def tradeABC_def market_defs)
  have same: "currency (inputAmount tradeAC) = currency (inputAmount tradeAC)" by simp
  show ?thesis
    using tradeComparator_spec[of tradeAC tradeABC]
      tradeComparator_spec[of tradeAC "tradeAC\<lparr>inputAmount := outputAmount tradeAC\<rparr>"]
      tradeComparator_spec[of tradeAC "tradeAC\<lparr>outputAmount := inputAmount tradeAC\<rparr>"]
      ce dn rk nrk
    by (auto simp: tradeAC_def market_defs token_equals_def)
qed

section \<open>Properties: the constructor of a trade\<close>

lemma token_equals_sym: "token_equals a b \<longleftrightarrow> token_equals b a"
  by (auto simp: token_equals_def)

lemma token_equals_refl [simp]: "token_equals a a"
  by (simp add: token_equals_def)

lemma token_equals_trans: "token_equals a b \<Longrightarrow> token_equals b c \<Longrightarrow> token_equals a c"
  by (simp add: token_equals_def)

lemma endpoint_check_iff:
  "(currencyEquals c (TokenCurrency e) \<or> (c = ETHER \<and> token_equals e (W (chainId e))))
     \<longleftrightarrow> spec_matches_endpoint W c e"
  by (cases c) (simp_all add: spec_matches_endpoint_def)

lemma trade_amounts_mismatch:
  assumes "\<not> spec_matches_endpoint W (currency amount) (endpoint r tt)"
  shows "trade_amounts W r amount tt =
           Inl (Invariant (case tt of EXACT_INPUT \<Rightarrow> ''INPUT'' | EXACT_OUTPUT \<Rightarrow> ''OUTPUT''))"
  using assms endpoint_check_iff[of "currency amount" "endpoint r tt" W]
  by (cases tt) (simp_all add: trade_amounts_def endpoint_def)

lemma trade_amounts_native:
  assumes "token_equals (endpoint r tt) (W (chainId (endpoint r tt)))"
  shows "trade_amounts W r (PlainAmt ETHER n) tt =
         trade_amounts W r (TokenAmt \<lparr>token = W (chainId (endpoint r tt)), raw = n\<rparr>) tt"
  using assms token_equals_sym[of "endpoint r tt" "W (chainId (endpoint r tt))"]
  by (cases tt) (simp_all add: trade_amounts_def endpoint_def wrappedAmount_def)

text \<open>
  Claim C9. Constructing a trade fails with the invariant \<open>INPUT\<close> (exact input) or
  \<open>OUTPUT\<close> (exact output), and so with no trade, whenever the asset of the amount does
  not match the endpoint of the route in the sense of the specification. An amount of the
  native asset is accepted exactly when the endpoint is the wrapped native token of its
  chain: then the construction is that of the wrapped token amount, otherwise it fails
  with that invariant.
\<close>

theorem Trade_constructor_endpoint:
  "(\<not> spec_matches_endpoint W (currency amount) (endpoint r tt) \<longrightarrow>
      Trade_constructor W r amount tt =
        Inl (Invariant (case tt of EXACT_INPUT \<Rightarrow> ''INPUT'' | EXACT_OUTPUT \<Rightarrow> ''OUTPUT''))) \<and>
   (token_equals (endpoint r tt) (W (chainId (endpoint r tt))) \<longrightarrow>
      Trade_constructor W r (PlainAmt ETHER n) tt =
        Trade_constructor W r (TokenAmt \<lparr>token = W (chainId (endpoint r tt)), raw = n\<rparr>) tt) \<and>
   (\<not> token_equals (endpoint r tt) (W (chainId (endpoint r tt))) \<longrightarrow>
      Trade_constructor W r (PlainAmt ETHER n) tt =
        Inl (Invariant (case tt of EXACT_INPUT \<Rightarrow> ''INPUT'' | EXACT_OUTPUT \<Rightarrow> ''OUTPUT'')))"
  using trade_amounts_mismatch[of W amount r tt] trade_amounts_native[of r tt W n]
    trade_amounts_mismatch[of W "PlainAmt ETHER n" r tt]
  by (simp add: Trade_constructor_def spec_matches_endpoint_def)

lemma routeAC_constructed: "Route_constructor [pairAC] tokenA = Inr routeAC"
  by (simp add: market_defs Route_constructor_def involvesToken_def token_equals_def
      Price_fromRoute_def pair_price_def)

lemma routeABC_constructed: "Route_constructor [pairAB, pairBC] tokenA = Inr routeABC"
  by (simp add: market_defs Route_constructor_def involvesToken_def token_equals_def
      Price_fromRoute_def pair_price_def price_multiply_def Price_constructor_def frac_multiply_def)

lemma routeWA_constructed: "Route_constructor [pairAW] (WETH 1) = Inr routeWA"
  by (simp add: market_defs Route_constructor_def involvesToken_def token_equals_def
      Price_fromRoute_def pair_price_def)

lemmas constructor_defs = Trade_constructor_def trade_amounts_def wrappedAmount_def
  getOutputAmount_def getInputAmount_def bigint_divide_def involvesToken_def token_equals_def
  Route_constructor_def Price_fromRoute_def pair_price_def Price_constructor_def
  price_multiply_def computePriceImpact_def frac_multiply_def frac_subtract_def frac_divide_def
  of_bigint_def

lemma tradeAC_constructed:
  "Trade_constructor WETH routeAC (TokenAmt amountA100) EXACT_INPUT = Inr tradeAC"
  by (simp add: market_defs tradeAC_def constructor_defs)

lemma tradeABC_constructed:
  "Trade_constructor WETH routeABC (TokenAmt amountA100) EXACT_INPUT = Inr tradeABC"
  by (simp add: market_defs tradeABC_def constructor_defs)

lemma tradeAC_out_constructed:
  "Trade_constructor WETH routeAC (TokenAmt amountC100) EXACT_OUTPUT = Inr tradeAC_out"
  by (simp add: market_defs tradeAC_out_def constructor_defs)

theorem Trade_constructor_endpoint_witness:
  "\<not> spec_matches_endpoint WETH (currency (TokenAmt amountC100)) (endpoint routeAC EXACT_INPUT) \<and>
   Trade_constructor WETH routeAC (TokenAmt amountC100) EXACT_INPUT = Inl (Invariant ''INPUT'') \<and>
   \<not> spec_matches_endpoint WETH (currency (TokenAmt amountA100)) (endpoint routeAC EXACT_OUTPUT) \<and>
   Trade_constructor WETH routeAC (TokenAmt amountA100) EXACT_OUTPUT = Inl (Invariant ''OUTPUT'') \<and>
   token_equals (endpoint routeWA EXACT_INPUT) (WETH (chainId (endpoint routeWA EXACT_INPUT))) \<and>
   (\<exists>t. Trade_constructor WETH routeWA (PlainAmt ETHER 100) EXACT_INPUT = Inr t \<and>
        outputAmount t = TokenAmt \<lparr>token = tokenA, raw = 90\<rparr>) \<and>
   \<not> token_equals (endpoint routeAC EXACT_INPUT) (WETH (chainId (endpoint routeAC EXACT_INPUT))) \<and>
   Trade_constructor WETH routeAC (PlainAmt ETHER 100) EXACT_INPUT = Inl (Invariant ''INPUT'')"
proof -
  have w: "\<exists>t. Trade_constructor WETH routeWA (TokenAmt \<lparr>token = WETH 1, raw = 100\<rparr>) EXACT_INPUT
              = Inr t \<and> outputAmount t = TokenAmt \<lparr>token = tokenA, raw = 90\<rparr>"
    by (simp add: market_defs constructor_defs)
  show ?thesis
    using Trade_constructor_endpoint[of WETH "TokenAmt amountC100" routeAC EXACT_INPUT 100]
      Trade_constructor_endpoint[of WETH "TokenAmt amountA100" routeAC EXACT_OUTPUT 100]
      Trade_constructor_endpoint[of WETH "TokenAmt amountA100" routeWA EXACT_INPUT 100] w
    by (simp add: spec_matches_endpoint_def endpoint_def market_defs token_equals_def)
qed

lemma computePriceImpact_value:
  assumes "numerator (price_raw mp) \<noteq> 0" "denominator (price_raw mp) \<noteq> 0" "raw i \<noteq> 0"
  shows "frac_value (computePriceImpact mp i out) =
           (frac_value (price_raw mp) * of_int (raw i) - of_int (raw out)) /
           (frac_value (price_raw mp) * of_int (raw i))"
  using assms
  by (auto simp: computePriceImpact_def Let_def frac_multiply_def frac_subtract_def
      frac_divide_def of_bigint_def frac_value_def divide_simps)


lemma exactQuote_nonzero:
  assumes "numerator (price_raw mp) \<noteq> 0" "denominator (price_raw mp) \<noteq> 0" "raw i \<noteq> 0"
  shows "frac_value (price_raw mp) * of_int (raw i) \<noteq> 0"
  using assms by (simp add: frac_value_def)

lemma bigint_divide_nonneg:
  assumes "0 \<le> a" "0 < b"
  shows "bigint_divide a b = Inr (a div b)"
  using assms by (cases "a = 0") (simp_all add: bigint_divide_def)

lemma getOutputAmount_input_nonzero:
  assumes "getOutputAmount p a = Inr (out, np)"
  shows "raw a \<noteq> 0"
proof
  assume "raw a = 0"
  then have "getOutputAmount p a \<noteq> Inr (out, np)"
    by (auto simp: getOutputAmount_def Let_def bigint_divide_def split: if_splits)
  with assms show False by simp
qed

lemma getInputAmount_positive:
  assumes "getInputAmount p a = Inr (inp, np)" "0 \<le> raw a" "0 \<le> reserve0 p" "0 \<le> reserve1 p"
  shows "0 < raw inp"
proof -
  let ?z = "token_equals (token a) (token0 p)"
  let ?ro = "if ?z then reserve0 p else reserve1 p"
  let ?ri = "if ?z then reserve1 p else reserve0 p"
  from assms(1) have lt: "raw a < ?ro"
    by (auto simp: getInputAmount_def Let_def split: if_splits)
  then have den: "0 < (?ro - raw a) * 997" by simp
  have num: "0 \<le> ?ri * raw a * 1000" using assms(2-4) by simp
  have "bigint_divide (?ri * raw a * 1000) ((?ro - raw a) * 997) =
          Inr ((?ri * raw a * 1000) div ((?ro - raw a) * 997))"
    using num den by (rule bigint_divide_nonneg)
  with assms(1) lt have "raw inp = (?ri * raw a * 1000) div ((?ro - raw a) * 997) + 1"
    by (auto simp: getInputAmount_def Let_def split: if_splits)
  moreover have "0 \<le> (?ri * raw a * 1000) div ((?ro - raw a) * 997)"
    using num den by (simp add: pos_imp_zdiv_nonneg_iff)
  ultimately show ?thesis by simp
qed

lemma amounts_exact_in_shape:
  assumes "amounts_exact_in ps n a = Inr (amounts, nextPairs)"
  shows "amounts \<noteq> [] \<and> hd amounts = a \<and> length nextPairs = n \<and> (0 < n \<longrightarrow> raw a \<noteq> 0)"
  using assms
proof (induction ps n a arbitrary: amounts nextPairs rule: amounts_exact_in.induct)
  case (1 ps a)
  then show ?case by auto
next
  case (2 n a)
  then show ?case by simp
next
  case (3 p ps n a)
  then show ?case
    by (auto split: sum.splits prod.splits dest: getOutputAmount_input_nonzero)
qed

lemma amounts_exact_out_shape:
  assumes "amounts_exact_out ps a = Inr (amounts, nextPairs)"
  shows "amounts \<noteq> [] \<and> last amounts = a \<and> length nextPairs = length ps"
  using assms
  by (induction ps a arbitrary: amounts nextPairs rule: amounts_exact_out.induct)
     (auto split: sum.splits prod.splits)

lemma amounts_exact_out_positive:
  assumes "amounts_exact_out ps a = Inr (amounts, nextPairs)" "ps \<noteq> []" "0 \<le> raw a"
    and "\<forall>p\<in>set ps. 0 \<le> reserve0 p \<and> 0 \<le> reserve1 p"
  shows "0 < raw (hd amounts)"
  using assms
proof (induction ps a arbitrary: amounts nextPairs rule: amounts_exact_out.induct)
  case (1 a)
  then show ?case by simp
next
  case (2 p ps a)
  from "2.prems"(1) obtain inp np as nps where
    g: "getInputAmount p a = Inr (inp, np)" and
    r: "amounts_exact_out ps inp = Inr (as, nps)" and
    e: "amounts = as @ [a]"
    by (auto split: sum.splits prod.splits)
  have pos: "0 < raw inp"
    using getInputAmount_positive[OF g] "2.prems" by simp
  have ne: "as \<noteq> []" using amounts_exact_out_shape[OF r] by simp
  show ?case
  proof (cases "ps = []")
    case True
    with r pos e show ?thesis by auto
  next
    case False
    have "0 < raw (hd as)"
      using "2.IH"[OF g refl r False] pos "2.prems"(4) by simp
    with ne e show ?thesis by simp
  qed
qed

lemma Route_constructor_nonempty: "Route_constructor ps inp = Inr r \<Longrightarrow> ps \<noteq> []"
  by (auto simp: Route_constructor_def split: if_splits)

lemma Trade_constructor_fields:
  assumes "Trade_constructor W r amount tt = Inr t"
  obtains amounts nextPairs where
    "trade_amounts W r amount tt = Inr (amounts, nextPairs)"
    "nextPairs \<noteq> []"
    "route t = r" "tradeType t = tt"
    "inputAmount t = TokenAmt (hd amounts)" "outputAmount t = TokenAmt (last amounts)"
    "priceImpact t = computePriceImpact (midPrice r) (hd amounts) (last amounts)"
  using assms
  by (auto simp: Trade_constructor_def split: sum.splits prod.splits if_splits
      dest: Route_constructor_nonempty)

lemma wrappedAmount_raw: "wrappedAmount W amount c = Inr a \<Longrightarrow> raw a = amount_raw amount"
  by (cases amount) (auto simp: wrappedAmount_def split: if_splits)

lemma trade_amounts_input_nonzero:
  assumes "trade_amounts W r amount tt = Inr (amounts, nextPairs)" "nextPairs \<noteq> []"
    and "0 \<le> amount_raw amount" and "\<forall>p\<in>set (pairs r). 0 \<le> reserve0 p \<and> 0 \<le> reserve1 p"
  shows "raw (hd amounts) \<noteq> 0"
proof (cases tt)
  case EXACT_INPUT
  with assms(1) obtain a where
    "amounts_exact_in (pairs r) (length (path r) - 1) a = Inr (amounts, nextPairs)"
    by (auto simp: trade_amounts_def split: if_splits sum.splits)
  from amounts_exact_in_shape[OF this] assms(2) show ?thesis by auto
next
  case EXACT_OUTPUT
  let ?ps = "rev (take (length (path r) - 1) (pairs r))"
  from EXACT_OUTPUT assms(1) obtain a where
    w: "wrappedAmount W amount (chainId (route_output r)) = Inr a" and
    o: "amounts_exact_out ?ps a = Inr (amounts, nextPairs)"
    by (auto simp: trade_amounts_def split: if_splits sum.splits)
  have "?ps \<noteq> []" using amounts_exact_out_shape[OF o] assms(2) by auto
  moreover have "0 \<le> raw a" using wrappedAmount_raw[OF w] assms(3) by simp
  moreover have "\<forall>p\<in>set ?ps. 0 \<le> reserve0 p \<and> 0 \<le> reserve1 p"
    using assms(4) by (auto dest: in_set_takeD)
  ultimately have "0 < raw (hd amounts)" using amounts_exact_out_positive[OF o] by blast
  then show ?thesis by simp
qed

text \<open>
  Claim C8. In every trade the constructor returns, on a route whose mid price has a
  nonzero numerator and denominator, with a non-negative amount and non-negative reserves,
  the input and output amounts are token amounts, the quote at the mid price is not
  zero, and the price impact is the rational number
  \<open>(midPrice * input - output) / (midPrice * input)\<close> over the raw values.
\<close>

theorem priceImpact_spec:
  "Trade_constructor W r amount tt = Inr t \<Longrightarrow>
   numerator (price_raw (midPrice r)) \<noteq> 0 \<Longrightarrow> denominator (price_raw (midPrice r)) \<noteq> 0 \<Longrightarrow>
   0 \<le> amount_raw amount \<Longrightarrow> \<forall>p\<in>set (pairs r). 0 \<le> reserve0 p \<and> 0 \<le> reserve1 p \<Longrightarrow>
   \<exists>i out. inputAmount t = TokenAmt i \<and> outputAmount t = TokenAmt out \<and>
     frac_value (price_raw (midPrice (route t))) * of_int (raw i) \<noteq> 0 \<and>
     frac_value (priceImpact t) =
       (frac_value (price_raw (midPrice (route t))) * of_int (raw i) - of_int (raw out)) /
       (frac_value (price_raw (midPrice (route t))) * of_int (raw i))"
proof -
  assume c: "Trade_constructor W r amount tt = Inr t"
    and n: "numerator (price_raw (midPrice r)) \<noteq> 0"
    and d: "denominator (price_raw (midPrice r)) \<noteq> 0"
    and a: "0 \<le> amount_raw amount"
    and p: "\<forall>p\<in>set (pairs r). 0 \<le> reserve0 p \<and> 0 \<le> reserve1 p"
  from c obtain amounts nextPairs where
    ta: "trade_amounts W r amount tt = Inr (amounts, nextPairs)" and
    ne: "nextPairs \<noteq> []" and
    f: "route t = r" "inputAmount t = TokenAmt (hd amounts)"
       "outputAmount t = TokenAmt (last amounts)"
       "priceImpact t = computePriceImpact (midPrice r) (hd amounts) (last amounts)"
    by (rule Trade_constructor_fields)
  have nz: "raw (hd amounts) \<noteq> 0"
    by (rule trade_amounts_input_nonzero[OF ta ne a p])
  show ?thesis
    using computePriceImpact_value[OF n d nz, of "last amounts"] exactQuote_nonzero[OF n d nz] f
    by simp
qed

theorem priceImpact_spec_witness:
  "Trade_constructor WETH routeAC (TokenAmt amountA100) EXACT_INPUT = Inr tradeAC \<and>
   numerator (price_raw (midPrice routeAC)) \<noteq> 0 \<and>
   denominator (price_raw (midPrice routeAC)) \<noteq> 0 \<and>
   0 \<le> amount_raw (TokenAmt amountA100) \<and>
   frac_value (price_raw (midPrice (route tradeAC))) = 11 / 10 \<and>
   frac_value (priceImpact tradeAC) = (11 / 10 * 100 - 99) / (11 / 10 * 100)"
  using priceImpact_spec[OF tradeAC_constructed] tradeAC_constructed
  by (simp add: tradeAC_def market_defs Price_constructor_def frac_value_def)


section \<open>Properties: the search\<close>

text \<open>
  One step of the loop of \<open>bestTradeExactIn\<close>, and an invariant rule for the search: a
  property \<open>C\<close> of the candidate pairs, the hop budget, the accumulated pairs and the
  frontier amount that every descent keeps, and a property \<open>L\<close> of the result list
  that every insertion keeps, hold throughout, and every error raised satisfies \<open>E\<close>.
\<close>

lemma outcome_simps [simp]: "outcome E L (Inl e) = E e" "outcome E L (Inr x) = L x"
  by (simp_all add: outcome_def)

lemma bestTradeExactIn_loop_end:
  "\<not> i < length prs \<Longrightarrow>
   bestTradeExactIn_loop W prs i amountIn tokenOut mnr maxHops cur orig bt = Inr bt"
  by (subst bestTradeExactIn_loop.simps) simp

lemma bestTradeExactIn_loop_skip:
  assumes "i < length prs"
    and "(\<not> token_equals (token0 (prs ! i)) (token amountIn) \<and>
          \<not> token_equals (token1 (prs ! i)) (token amountIn)) \<or>
         reserve0 (prs ! i) = 0 \<or> reserve1 (prs ! i) = 0"
  shows "bestTradeExactIn_loop W prs i amountIn tokenOut mnr maxHops cur orig bt =
         bestTradeExactIn_loop W prs (Suc i) amountIn tokenOut mnr maxHops cur orig bt"
  using assms by (subst bestTradeExactIn_loop.simps) (auto simp: Let_def)

lemma bestTradeExactIn_loop_swap:
  assumes "i < length prs"
    and "token_equals (token0 (prs ! i)) (token amountIn) \<or>
         token_equals (token1 (prs ! i)) (token amountIn)"
    and "reserve0 (prs ! i) \<noteq> 0" "reserve1 (prs ! i) \<noteq> 0"
  shows "bestTradeExactIn_loop W prs i amountIn tokenOut mnr maxHops cur orig bt =
     (case getOutputAmount (prs ! i) amountIn of
        Inl e \<Rightarrow>
          if e = InsufficientInputAmountError
          then bestTradeExactIn_loop W prs (Suc i) amountIn tokenOut mnr maxHops cur orig bt
          else Inl e
      | Inr (amountOut, nextPair) \<Rightarrow>
          if token_equals (token amountOut) tokenOut then
            (case found_exact_in W (cur @ [prs ! i]) orig mnr bt of
               Inl e \<Rightarrow> Inl e
             | Inr bt' \<Rightarrow>
                 bestTradeExactIn_loop W prs (Suc i) amountIn tokenOut mnr maxHops cur orig bt')
          else if 1 < maxHops \<and> 1 < length prs then
            (case bestTradeExactIn W (take i prs @ drop (Suc i) prs) amountOut tokenOut mnr
                    (maxHops - 1) (cur @ [prs ! i]) orig bt of
               Inl e \<Rightarrow> Inl e
             | Inr bt' \<Rightarrow>
                 bestTradeExactIn_loop W prs (Suc i) amountIn tokenOut mnr maxHops cur orig bt')
          else bestTradeExactIn_loop W prs (Suc i) amountIn tokenOut mnr maxHops cur orig bt)"
  using assms
  by (subst bestTradeExactIn_loop.simps)
     (auto simp: Let_def found_exact_in_def split: sum.splits prod.splits)

lemma bestTradeExactIn_rule_aux:
  fixes C :: "Pair list \<Rightarrow> int \<Rightarrow> Pair list \<Rightarrow> TokenAmount \<Rightarrow> bool"
  assumes entry: "E (Invariant ''PAIRS'')" "E (Invariant ''MAX_HOPS'')"
      "E (Invariant ''INVALID_RECURSION'')"
    and swap_err: "\<And>prs maxHops cur amountIn i e.
      \<lbrakk>C prs maxHops cur amountIn; i < length prs;
       token_equals (token0 (prs ! i)) (token amountIn) \<or>
         token_equals (token1 (prs ! i)) (token amountIn);
       reserve0 (prs ! i) \<noteq> 0; reserve1 (prs ! i) \<noteq> 0;
       getOutputAmount (prs ! i) amountIn = Inl e; e \<noteq> InsufficientInputAmountError\<rbrakk>
      \<Longrightarrow> E e"
    and found: "\<And>prs maxHops cur amountIn i amountOut np bt.
      \<lbrakk>C prs maxHops cur amountIn; L bt; i < length prs; 0 < maxHops;
       token_equals (token0 (prs ! i)) (token amountIn) \<or>
         token_equals (token1 (prs ! i)) (token amountIn);
       reserve0 (prs ! i) \<noteq> 0; reserve1 (prs ! i) \<noteq> 0;
       getOutputAmount (prs ! i) amountIn = Inr (amountOut, np);
       token_equals (token amountOut) tokenOut\<rbrakk>
      \<Longrightarrow> outcome E L (found_exact_in W (cur @ [prs ! i]) orig mnr bt)"
    and descend: "\<And>prs maxHops cur amountIn i amountOut np.
      \<lbrakk>C prs maxHops cur amountIn; i < length prs;
       token_equals (token0 (prs ! i)) (token amountIn) \<or>
         token_equals (token1 (prs ! i)) (token amountIn);
       reserve0 (prs ! i) \<noteq> 0; reserve1 (prs ! i) \<noteq> 0;
       getOutputAmount (prs ! i) amountIn = Inr (amountOut, np);
       \<not> token_equals (token amountOut) tokenOut; 1 < maxHops; 1 < length prs\<rbrakk>
      \<Longrightarrow> C (take i prs @ drop (Suc i) prs) (maxHops - 1) (cur @ [prs ! i]) amountOut"
  shows "W' = W \<Longrightarrow> tokenOut' = tokenOut \<Longrightarrow> mnr' = mnr \<Longrightarrow> orig' = orig \<Longrightarrow>
         C prs maxHops cur amountIn \<Longrightarrow> L bt \<Longrightarrow>
         outcome E L (bestTradeExactIn W' prs amountIn tokenOut' mnr' maxHops cur orig' bt)"
    and "W' = W \<Longrightarrow> tokenOut' = tokenOut \<Longrightarrow> mnr' = mnr \<Longrightarrow> orig' = orig \<Longrightarrow>
         C prs maxHops cur amountIn \<Longrightarrow> L bt \<Longrightarrow> 0 < maxHops \<Longrightarrow>
         outcome E L (bestTradeExactIn_loop W' prs i amountIn tokenOut' mnr' maxHops cur orig' bt)"
proof (induction W' prs amountIn tokenOut' mnr' maxHops cur orig' bt
        and W' prs i amountIn tokenOut' mnr' maxHops cur orig' bt
        rule: bestTradeExactIn_bestTradeExactIn_loop.induct)
  case (1 W' prs amountIn tokenOut' mnr' maxHops cur orig' bt)
  then show ?case
    using entry by (subst bestTradeExactIn.simps) auto
next
  case (2 W' prs i amountIn tokenOut' mnr' maxHops cur orig' bt)
  note eqs = "2.prems"(1-4)
  note C = "2.prems"(5) and L = "2.prems"(6) and H = "2.prems"(7)
  let ?p = "prs ! i"
  let ?next = "\<lambda>bt. bestTradeExactIn_loop W' prs (Suc i) amountIn tokenOut' mnr' maxHops cur
                       orig' bt"
  consider (finished) "\<not> i < length prs"
    | (irrelevant) "i < length prs"
        "\<not> token_equals (token0 ?p) (token amountIn) \<and>
         \<not> token_equals (token1 ?p) (token amountIn)"
    | (empty) "i < length prs"
        "\<not> (\<not> token_equals (token0 ?p) (token amountIn) \<and>
            \<not> token_equals (token1 ?p) (token amountIn))"
        "reserve0 ?p = 0 \<or> reserve1 ?p = 0"
    | (swap) "i < length prs"
        "\<not> (\<not> token_equals (token0 ?p) (token amountIn) \<and>
            \<not> token_equals (token1 ?p) (token amountIn))"
        "\<not> (reserve0 ?p = 0 \<or> reserve1 ?p = 0)"
    by blast
  then show ?case
  proof cases
    case finished
    then show ?thesis using L by (simp add: bestTradeExactIn_loop_end)
  next
    case irrelevant
    then show ?thesis
      using "2.IH"(1)[OF _ refl irrelevant(2) eqs C L H]
      by (simp add: bestTradeExactIn_loop_skip)
  next
    case empty
    then show ?thesis
      using "2.IH"(2)[OF _ refl empty(2,3) eqs C L H]
      by (simp add: bestTradeExactIn_loop_skip)
  next
    case swap
    note lt = swap(1) and rel = swap(2) and nz = swap(3)
    have rel': "token_equals (token0 ?p) (token amountIn) \<or>
                token_equals (token1 ?p) (token amountIn)"
      and nz': "reserve0 ?p \<noteq> 0" "reserve1 ?p \<noteq> 0"
      using rel nz by auto
    note unfold = bestTradeExactIn_loop_swap[OF lt rel' nz', of W' tokenOut' mnr' maxHops cur
        orig' bt]
    show ?thesis
    proof (cases "getOutputAmount ?p amountIn")
      case (Inl e)
      show ?thesis
      proof (cases "e = InsufficientInputAmountError")
        case True
        then show ?thesis
          using "2.IH"(3)[OF _ refl rel nz Inl True eqs C L H] lt Inl unfold by simp
      next
        case False
        have "E e" by (rule swap_err[OF C lt rel' nz' Inl False])
        then show ?thesis using Inl False unfold by simp
      qed
    next
      case (Inr b)
      obtain amountOut np where b: "(amountOut, np) = b" by (cases b) auto
      have g: "getOutputAmount ?p amountIn = Inr (amountOut, np)" using Inr b by simp
      show ?thesis
      proof (cases "token_equals (token amountOut) tokenOut'")
        case True
        have f: "outcome E L (found_exact_in W' (cur @ [?p]) orig' mnr' bt)"
          using found[OF C L lt H rel' nz' g] True eqs by simp
        show ?thesis
        proof (cases "found_exact_in W' (cur @ [?p]) orig' mnr' bt")
          case (Inl e)
          then show ?thesis using f g True unfold by simp
        next
          case (Inr bt')
          then obtain r t where
            r: "Route_constructor (cur @ [?p]) (token orig') = Inr r" and
            t: "Trade_constructor W' r (TokenAmt orig') EXACT_INPUT = Inr t" and
            s: "sortedInsert bt t mnr' tradeComparator = Inr bt'"
            by (auto simp: found_exact_in_def split: sum.splits)
          have L': "L bt'" using f Inr by simp
          show ?thesis
            using "2.IH"(4)[OF _ refl rel nz \<open>getOutputAmount ?p amountIn = Inr b\<close> b True
                r t s eqs C L' H] lt g True Inr unfold
            by simp
        qed
      next
        case nt: False
        show ?thesis
        proof (cases "1 < maxHops \<and> 1 < length prs")
          case False
          then show ?thesis
            using "2.IH"(7)[OF _ refl rel nz \<open>getOutputAmount ?p amountIn = Inr b\<close> b nt False
                eqs C L H] lt g nt unfold
            by auto
        next
          case deep: True
          let ?rec = "bestTradeExactIn W' (take i prs @ drop (Suc i) prs) amountOut tokenOut'
                        mnr' (maxHops - 1) (cur @ [?p]) orig' bt"
          have C': "C (take i prs @ drop (Suc i) prs) (maxHops - 1) (cur @ [?p]) amountOut"
            using descend[OF C lt rel' nz' g] nt deep eqs by simp
          have rec: "outcome E L ?rec"
            using "2.IH"(5)[OF _ refl rel nz \<open>getOutputAmount ?p amountIn = Inr b\<close> b nt deep
                eqs] C' L lt
            by simp
          show ?thesis
          proof (cases ?rec)
            case (Inl e)
            then show ?thesis using rec g nt deep unfold by simp
          next
            case (Inr bt')
            have L': "L bt'" using rec Inr by simp
            show ?thesis
              using "2.IH"(6)[OF _ refl rel nz \<open>getOutputAmount ?p amountIn = Inr b\<close> b nt
                  deep _ eqs C L' H] lt g nt deep Inr unfold
              by simp
          qed
        qed
      qed
    qed
  qed
qed


text \<open>The same step and rule for \<open>bestTradeExactOut\<close>.\<close>

lemma bestTradeExactOut_loop_end:
  "\<not> i < length prs \<Longrightarrow>
   bestTradeExactOut_loop W prs i tokenIn amountOut mnr maxHops cur orig bt = Inr bt"
  by (subst bestTradeExactOut_loop.simps) simp

lemma bestTradeExactOut_loop_skip:
  assumes "i < length prs"
    and "(\<not> token_equals (token0 (prs ! i)) (token amountOut) \<and>
          \<not> token_equals (token1 (prs ! i)) (token amountOut)) \<or>
         reserve0 (prs ! i) = 0 \<or> reserve1 (prs ! i) = 0"
  shows "bestTradeExactOut_loop W prs i tokenIn amountOut mnr maxHops cur orig bt =
         bestTradeExactOut_loop W prs (Suc i) tokenIn amountOut mnr maxHops cur orig bt"
  using assms by (subst bestTradeExactOut_loop.simps) (auto simp: Let_def)

lemma bestTradeExactOut_loop_swap:
  assumes "i < length prs"
    and "token_equals (token0 (prs ! i)) (token amountOut) \<or>
         token_equals (token1 (prs ! i)) (token amountOut)"
    and "reserve0 (prs ! i) \<noteq> 0" "reserve1 (prs ! i) \<noteq> 0"
  shows "bestTradeExactOut_loop W prs i tokenIn amountOut mnr maxHops cur orig bt =
     (case getInputAmount (prs ! i) amountOut of
        Inl e \<Rightarrow>
          if e = InsufficientReservesError
          then bestTradeExactOut_loop W prs (Suc i) tokenIn amountOut mnr maxHops cur orig bt
          else Inl e
      | Inr (amountIn, nextPair) \<Rightarrow>
          if token_equals (token amountIn) tokenIn then
            (case found_exact_out W (prs ! i # cur) tokenIn orig mnr bt of
               Inl e \<Rightarrow> Inl e
             | Inr bt' \<Rightarrow>
                 bestTradeExactOut_loop W prs (Suc i) tokenIn amountOut mnr maxHops cur orig bt')
          else if 1 < maxHops \<and> 1 < length prs then
            (case bestTradeExactOut W (take i prs @ drop (Suc i) prs) tokenIn amountIn mnr
                    (maxHops - 1) (prs ! i # cur) orig bt of
               Inl e \<Rightarrow> Inl e
             | Inr bt' \<Rightarrow>
                 bestTradeExactOut_loop W prs (Suc i) tokenIn amountOut mnr maxHops cur orig bt')
          else bestTradeExactOut_loop W prs (Suc i) tokenIn amountOut mnr maxHops cur orig bt)"
  using assms
  by (subst bestTradeExactOut_loop.simps)
     (auto simp: Let_def found_exact_out_def split: sum.splits prod.splits)

lemma bestTradeExactOut_rule_aux:
  fixes C :: "Pair list \<Rightarrow> int \<Rightarrow> Pair list \<Rightarrow> TokenAmount \<Rightarrow> bool"
  assumes entry: "E (Invariant ''PAIRS'')" "E (Invariant ''MAX_HOPS'')"
      "E (Invariant ''INVALID_RECURSION'')"
    and swap_err: "\<And>prs maxHops cur amountOut i e.
      \<lbrakk>C prs maxHops cur amountOut; i < length prs;
       token_equals (token0 (prs ! i)) (token amountOut) \<or>
         token_equals (token1 (prs ! i)) (token amountOut);
       reserve0 (prs ! i) \<noteq> 0; reserve1 (prs ! i) \<noteq> 0;
       getInputAmount (prs ! i) amountOut = Inl e; e \<noteq> InsufficientReservesError\<rbrakk>
      \<Longrightarrow> E e"
    and found: "\<And>prs maxHops cur amountOut i amountIn np bt.
      \<lbrakk>C prs maxHops cur amountOut; L bt; i < length prs; 0 < maxHops;
       token_equals (token0 (prs ! i)) (token amountOut) \<or>
         token_equals (token1 (prs ! i)) (token amountOut);
       reserve0 (prs ! i) \<noteq> 0; reserve1 (prs ! i) \<noteq> 0;
       getInputAmount (prs ! i) amountOut = Inr (amountIn, np);
       token_equals (token amountIn) tokenIn\<rbrakk>
      \<Longrightarrow> outcome E L (found_exact_out W (prs ! i # cur) tokenIn orig mnr bt)"
    and descend: "\<And>prs maxHops cur amountOut i amountIn np.
      \<lbrakk>C prs maxHops cur amountOut; i < length prs;
       token_equals (token0 (prs ! i)) (token amountOut) \<or>
         token_equals (token1 (prs ! i)) (token amountOut);
       reserve0 (prs ! i) \<noteq> 0; reserve1 (prs ! i) \<noteq> 0;
       getInputAmount (prs ! i) amountOut = Inr (amountIn, np);
       \<not> token_equals (token amountIn) tokenIn; 1 < maxHops; 1 < length prs\<rbrakk>
      \<Longrightarrow> C (take i prs @ drop (Suc i) prs) (maxHops - 1) (prs ! i # cur) amountIn"
  shows "W' = W \<Longrightarrow> tokenIn' = tokenIn \<Longrightarrow> mnr' = mnr \<Longrightarrow> orig' = orig \<Longrightarrow>
         C prs maxHops cur amountOut \<Longrightarrow> L bt \<Longrightarrow>
         outcome E L (bestTradeExactOut W' prs tokenIn' amountOut mnr' maxHops cur orig' bt)"
    and "W' = W \<Longrightarrow> tokenIn' = tokenIn \<Longrightarrow> mnr' = mnr \<Longrightarrow> orig' = orig \<Longrightarrow>
         C prs maxHops cur amountOut \<Longrightarrow> L bt \<Longrightarrow> 0 < maxHops \<Longrightarrow>
         outcome E L (bestTradeExactOut_loop W' prs i tokenIn' amountOut mnr' maxHops cur orig' bt)"
proof (induction W' prs tokenIn' amountOut mnr' maxHops cur orig' bt
        and W' prs i tokenIn' amountOut mnr' maxHops cur orig' bt
        rule: bestTradeExactOut_bestTradeExactOut_loop.induct)
  case (1 W' prs tokenIn' amountOut mnr' maxHops cur orig' bt)
  then show ?case
    using entry by (subst bestTradeExactOut.simps) auto
next
  case (2 W' prs i tokenIn' amountOut mnr' maxHops cur orig' bt)
  note eqs = "2.prems"(1-4)
  note C = "2.prems"(5) and L = "2.prems"(6) and H = "2.prems"(7)
  let ?p = "prs ! i"
  let ?next = "\<lambda>bt. bestTradeExactOut_loop W' prs (Suc i) tokenIn' amountOut mnr' maxHops cur
                       orig' bt"
  consider (finished) "\<not> i < length prs"
    | (irrelevant) "i < length prs"
        "\<not> token_equals (token0 ?p) (token amountOut) \<and>
         \<not> token_equals (token1 ?p) (token amountOut)"
    | (empty) "i < length prs"
        "\<not> (\<not> token_equals (token0 ?p) (token amountOut) \<and>
            \<not> token_equals (token1 ?p) (token amountOut))"
        "reserve0 ?p = 0 \<or> reserve1 ?p = 0"
    | (swap) "i < length prs"
        "\<not> (\<not> token_equals (token0 ?p) (token amountOut) \<and>
            \<not> token_equals (token1 ?p) (token amountOut))"
        "\<not> (reserve0 ?p = 0 \<or> reserve1 ?p = 0)"
    by blast
  then show ?case
  proof cases
    case finished
    then show ?thesis using L by (simp add: bestTradeExactOut_loop_end)
  next
    case irrelevant
    then show ?thesis
      using "2.IH"(1)[OF _ refl irrelevant(2) eqs C L H]
      by (simp add: bestTradeExactOut_loop_skip)
  next
    case empty
    then show ?thesis
      using "2.IH"(2)[OF _ refl empty(2,3) eqs C L H]
      by (simp add: bestTradeExactOut_loop_skip)
  next
    case swap
    note lt = swap(1) and rel = swap(2) and nz = swap(3)
    have rel': "token_equals (token0 ?p) (token amountOut) \<or>
                token_equals (token1 ?p) (token amountOut)"
      and nz': "reserve0 ?p \<noteq> 0" "reserve1 ?p \<noteq> 0"
      using rel nz by auto
    note unfold = bestTradeExactOut_loop_swap[OF lt rel' nz', of W' tokenIn' mnr' maxHops cur
        orig' bt]
    show ?thesis
    proof (cases "getInputAmount ?p amountOut")
      case (Inl e)
      show ?thesis
      proof (cases "e = InsufficientReservesError")
        case True
        then show ?thesis
          using "2.IH"(3)[OF _ refl rel nz Inl True eqs C L H] lt Inl unfold by simp
      next
        case False
        have "E e" by (rule swap_err[OF C lt rel' nz' Inl False])
        then show ?thesis using Inl False unfold by simp
      qed
    next
      case (Inr b)
      obtain amountIn np where b: "(amountIn, np) = b" by (cases b) auto
      have g: "getInputAmount ?p amountOut = Inr (amountIn, np)" using Inr b by simp
      show ?thesis
      proof (cases "token_equals (token amountIn) tokenIn'")
        case True
        have f: "outcome E L (found_exact_out W' (?p # cur) tokenIn' orig' mnr' bt)"
          using found[OF C L lt H rel' nz' g] True eqs by simp
        show ?thesis
        proof (cases "found_exact_out W' (?p # cur) tokenIn' orig' mnr' bt")
          case (Inl e)
          then show ?thesis using f g True unfold by simp
        next
          case (Inr bt')
          then obtain r t where
            r: "Route_constructor (?p # cur) tokenIn' = Inr r" and
            t: "Trade_constructor W' r (TokenAmt orig') EXACT_OUTPUT = Inr t" and
            s: "sortedInsert bt t mnr' tradeComparator = Inr bt'"
            by (auto simp: found_exact_out_def split: sum.splits)
          have L': "L bt'" using f Inr by simp
          show ?thesis
            using "2.IH"(4)[OF _ refl rel nz \<open>getInputAmount ?p amountOut = Inr b\<close> b True
                r t s eqs C L' H] lt g True Inr unfold
            by simp
        qed
      next
        case nt: False
        show ?thesis
        proof (cases "1 < maxHops \<and> 1 < length prs")
          case False
          then show ?thesis
            using "2.IH"(7)[OF _ refl rel nz \<open>getInputAmount ?p amountOut = Inr b\<close> b nt False
                eqs C L H] lt g nt unfold
            by auto
        next
          case deep: True
          let ?rec = "bestTradeExactOut W' (take i prs @ drop (Suc i) prs) tokenIn' amountIn
                        mnr' (maxHops - 1) (?p # cur) orig' bt"
          have C': "C (take i prs @ drop (Suc i) prs) (maxHops - 1) (?p # cur) amountIn"
            using descend[OF C lt rel' nz' g] nt deep eqs by simp
          have rec: "outcome E L ?rec"
            using "2.IH"(5)[OF _ refl rel nz \<open>getInputAmount ?p amountOut = Inr b\<close> b nt deep
                eqs] C' L lt
            by simp
          show ?thesis
          proof (cases ?rec)
            case (Inl e)
            then show ?thesis using rec g nt deep unfold by simp
          next
            case (Inr bt')
            have L': "L bt'" using rec Inr by simp
            show ?thesis
              using "2.IH"(6)[OF _ refl rel nz \<open>getInputAmount ?p amountOut = Inr b\<close> b nt
                  deep _ eqs C L' H] lt g nt deep Inr unfold
              by simp
          qed
        qed
      qed
    qed
  qed
qed



lemma bestTradeExactIn_rule:
  fixes C :: "Pair list \<Rightarrow> int \<Rightarrow> Pair list \<Rightarrow> TokenAmount \<Rightarrow> bool"
  assumes "E (Invariant ''PAIRS'')" "E (Invariant ''MAX_HOPS'')"
      "E (Invariant ''INVALID_RECURSION'')"
    and "\<And>prs maxHops cur amountIn i e.
      \<lbrakk>C prs maxHops cur amountIn; i < length prs;
       token_equals (token0 (prs ! i)) (token amountIn) \<or>
         token_equals (token1 (prs ! i)) (token amountIn);
       reserve0 (prs ! i) \<noteq> 0; reserve1 (prs ! i) \<noteq> 0;
       getOutputAmount (prs ! i) amountIn = Inl e; e \<noteq> InsufficientInputAmountError\<rbrakk>
      \<Longrightarrow> E e"
    and "\<And>prs maxHops cur amountIn i amountOut np bt.
      \<lbrakk>C prs maxHops cur amountIn; L bt; i < length prs; 0 < maxHops;
       token_equals (token0 (prs ! i)) (token amountIn) \<or>
         token_equals (token1 (prs ! i)) (token amountIn);
       reserve0 (prs ! i) \<noteq> 0; reserve1 (prs ! i) \<noteq> 0;
       getOutputAmount (prs ! i) amountIn = Inr (amountOut, np);
       token_equals (token amountOut) tokenOut\<rbrakk>
      \<Longrightarrow> outcome E L (found_exact_in W (cur @ [prs ! i]) orig mnr bt)"
    and "\<And>prs maxHops cur amountIn i amountOut np.
      \<lbrakk>C prs maxHops cur amountIn; i < length prs;
       token_equals (token0 (prs ! i)) (token amountIn) \<or>
         token_equals (token1 (prs ! i)) (token amountIn);
       reserve0 (prs ! i) \<noteq> 0; reserve1 (prs ! i) \<noteq> 0;
       getOutputAmount (prs ! i) amountIn = Inr (amountOut, np);
       \<not> token_equals (token amountOut) tokenOut; 1 < maxHops; 1 < length prs\<rbrakk>
      \<Longrightarrow> C (take i prs @ drop (Suc i) prs) (maxHops - 1) (cur @ [prs ! i]) amountOut"
    and "C prs maxHops cur amountIn" and "L bt"
  shows "outcome E L (bestTradeExactIn W prs amountIn tokenOut mnr maxHops cur orig bt)"
  by (rule bestTradeExactIn_rule_aux(1)[where C = C and L = L and E = E and W = W
        and tokenOut = tokenOut and mnr = mnr and orig = orig, OF assms(1-6) refl refl refl refl
        assms(7,8)])

lemma bestTradeExactOut_rule:
  fixes C :: "Pair list \<Rightarrow> int \<Rightarrow> Pair list \<Rightarrow> TokenAmount \<Rightarrow> bool"
  assumes "E (Invariant ''PAIRS'')" "E (Invariant ''MAX_HOPS'')"
      "E (Invariant ''INVALID_RECURSION'')"
    and "\<And>prs maxHops cur amountOut i e.
      \<lbrakk>C prs maxHops cur amountOut; i < length prs;
       token_equals (token0 (prs ! i)) (token amountOut) \<or>
         token_equals (token1 (prs ! i)) (token amountOut);
       reserve0 (prs ! i) \<noteq> 0; reserve1 (prs ! i) \<noteq> 0;
       getInputAmount (prs ! i) amountOut = Inl e; e \<noteq> InsufficientReservesError\<rbrakk>
      \<Longrightarrow> E e"
    and "\<And>prs maxHops cur amountOut i amountIn np bt.
      \<lbrakk>C prs maxHops cur amountOut; L bt; i < length prs; 0 < maxHops;
       token_equals (token0 (prs ! i)) (token amountOut) \<or>
         token_equals (token1 (prs ! i)) (token amountOut);
       reserve0 (prs ! i) \<noteq> 0; reserve1 (prs ! i) \<noteq> 0;
       getInputAmount (prs ! i) amountOut = Inr (amountIn, np);
       token_equals (token amountIn) tokenIn\<rbrakk>
      \<Longrightarrow> outcome E L (found_exact_out W (prs ! i # cur) tokenIn orig mnr bt)"
    and "\<And>prs maxHops cur amountOut i amountIn np.
      \<lbrakk>C prs maxHops cur amountOut; i < length prs;
       token_equals (token0 (prs ! i)) (token amountOut) \<or>
         token_equals (token1 (prs ! i)) (token amountOut);
       reserve0 (prs ! i) \<noteq> 0; reserve1 (prs ! i) \<noteq> 0;
       getInputAmount (prs ! i) amountOut = Inr (amountIn, np);
       \<not> token_equals (token amountIn) tokenIn; 1 < maxHops; 1 < length prs\<rbrakk>
      \<Longrightarrow> C (take i prs @ drop (Suc i) prs) (maxHops - 1) (prs ! i # cur) amountIn"
    and "C prs maxHops cur amountOut" and "L bt"
  shows "outcome E L (bestTradeExactOut W prs tokenIn amountOut mnr maxHops cur orig bt)"
  by (rule bestTradeExactOut_rule_aux(1)[where C = C and L = L and E = E and W = W
        and tokenIn = tokenIn and mnr = mnr and orig = orig, OF assms(1-6) refl refl refl refl
        assms(7,8)])

text \<open>Routes, insertion into the result list, and the pairs of the routes found.\<close>

lemma route_path_length: "route_path ps t = Inr pth \<Longrightarrow> length pth = Suc (length ps)"
  by (induction ps t arbitrary: pth rule: route_path.induct) (auto split: if_splits sum.splits)

lemma route_path_hd: "route_path ps t = Inr pth \<Longrightarrow> hd pth = t"
  by (cases ps) (auto split: if_splits sum.splits)

lemma Route_constructor_fields:
  assumes "Route_constructor ps inp = Inr r"
  shows "pairs r = ps" "input r = inp" "ps \<noteq> []" "length (path r) = Suc (length ps)"
    "route_path ps inp = Inr (path r)" "Price_fromRoute ps (path r) = Inr (midPrice r)"
    "route_output r = last (path r)"
  using assms
  by (auto simp: Route_constructor_def split: if_splits sum.splits dest: route_path_length)

lemma Trade_constructor_route: "Trade_constructor W r amount tt = Inr t \<Longrightarrow> route t = r"
  by (erule Trade_constructor_fields)

lemma insert_ranked_set:
  "insert_ranked cmp add xs = Inr ys \<Longrightarrow> set ys = insert add (set xs) \<and> length ys = Suc (length xs)"
proof (induction xs arbitrary: ys)
  case Nil
  then show ?case by auto
next
  case (Cons x xs)
  from Cons.prems obtain c where c: "cmp x add = Inr c"
    by (cases "cmp x add") simp_all
  show ?case
  proof (cases "c \<le> 0")
    case True
    with Cons.prems c obtain zs where zs: "insert_ranked cmp add xs = Inr zs" and ys: "ys = x # zs"
      by (cases "insert_ranked cmp add xs") auto
    from Cons.IH[OF zs] ys show ?thesis by auto
  next
    case False
    with Cons.prems c have "ys = add # x # xs" by simp
    then show ?thesis by auto
  qed
qed

lemma sortedInsert_cases:
  assumes "sortedInsert bt t mnr cmp = Inr bt'"
  obtains ys where "insert_ranked cmp t bt = Inr ys"
    "bt' = (if int (length ys) > mnr then butlast ys else ys)"
  using assms by (cases "insert_ranked cmp t bt") (simp_all add: sortedInsert_def)

lemma sortedInsert_subset:
  assumes "sortedInsert bt t mnr cmp = Inr bt'"
  shows "set bt' \<subseteq> insert t (set bt)"
proof -
  from assms obtain ys where ys: "insert_ranked cmp t bt = Inr ys"
    and bt': "bt' = (if int (length ys) > mnr then butlast ys else ys)"
    by (rule sortedInsert_cases)
  have "set bt' \<subseteq> set ys" using bt' by (auto dest: in_set_butlastD)
  then show ?thesis using insert_ranked_set[OF ys] by simp
qed

lemma mset_without_nth:
  assumes "i < length prs"
  shows "mset (cur @ [prs ! i]) + mset (take i prs @ drop (Suc i) prs) = mset cur + mset prs"
proof -
  have "mset prs = mset (take i prs @ prs ! i # drop (Suc i) prs)"
    using assms by (simp add: id_take_nth_drop[symmetric])
  then show ?thesis by simp
qed

lemma mset_with_nth:
  assumes "i < length prs" "mset cur + mset prs \<subseteq># M"
  shows "mset (cur @ [prs ! i]) \<subseteq># M"
proof -
  have "mset (cur @ [prs ! i]) \<subseteq># mset cur + mset prs"
    by (subst mset_without_nth[OF assms(1), of cur, symmetric]) (rule mset_subset_eq_add_left)
  then show ?thesis using assms(2) by (rule subset_mset.order_trans)
qed

lemma found_route_pairs:
  assumes "Route_constructor ps inp = Inr r" "Trade_constructor W r amount tt = Inr t"
    "sortedInsert bt t mnr cmp = Inr bt'" "\<forall>x\<in>set bt. within_budget M H x"
    "mset ps \<subseteq># M" "int (length ps) \<le> H"
  shows "\<forall>x\<in>set bt'. within_budget M H x"
proof -
  have "pairs (route t) = ps"
    using Route_constructor_fields(1)[OF assms(1)] Trade_constructor_route[OF assms(2)] by simp
  then have "within_budget M H t" using assms(5,6) by (simp add: within_budget_def)
  then show ?thesis using sortedInsert_subset[OF assms(3)] assms(4) by auto
qed

lemma bestTradeExactIn_within_budget:
  assumes "bestTradeExactIn W prs amountIn tokenOut mnr maxHops [] orig [] = Inr ts"
  shows "\<forall>t\<in>set ts. within_budget (mset prs) maxHops t"
proof -
  let ?M = "mset prs" and ?H = maxHops
  let ?C = "\<lambda>ps (h::int) cur (a::TokenAmount). mset cur + mset ps \<subseteq># ?M \<and> int (length cur) + h \<le> ?H"
  let ?L = "\<lambda>bt. \<forall>t\<in>set bt. within_budget ?M ?H t"
  have "outcome (\<lambda>e. True) ?L
          (bestTradeExactIn W prs amountIn tokenOut mnr maxHops [] orig [])"
  proof (rule bestTradeExactIn_rule[where C = ?C and L = ?L])
    fix ps :: "Pair list" and h :: int and cur a i out np bt
    assume c: "mset cur + mset ps \<subseteq># ?M \<and> int (length cur) + h \<le> ?H"
      and l: "\<forall>t\<in>set bt. within_budget ?M ?H t" and i: "i < length ps" and h: "0 < h"
    from c have c1: "mset cur + mset ps \<subseteq># ?M" and c2: "int (length cur) + h \<le> ?H"
      by blast+
    have m: "mset (cur @ [ps ! i]) \<subseteq># ?M" by (rule mset_with_nth[OF i c1])
    have n: "int (length (cur @ [ps ! i])) \<le> ?H" using c2 h by simp
    show "outcome (\<lambda>e. True) ?L (found_exact_in W (cur @ [ps ! i]) orig mnr bt)"
    proof (cases "found_exact_in W (cur @ [ps ! i]) orig mnr bt")
      case (Inl e)
      then show ?thesis by simp
    next
      case (Inr bt')
      then obtain r t where
        "Route_constructor (cur @ [ps ! i]) (token orig) = Inr r"
        "Trade_constructor W r (TokenAmt orig) EXACT_INPUT = Inr t"
        "sortedInsert bt t mnr tradeComparator = Inr bt'"
        by (auto simp: found_exact_in_def split: sum.splits)
      from found_route_pairs[OF this l m n] Inr show ?thesis by simp
    qed
  next
    fix ps :: "Pair list" and h :: int and cur and a :: TokenAmount and i and out :: TokenAmount
    assume c: "mset cur + mset ps \<subseteq># ?M \<and> int (length cur) + h \<le> ?H" and i: "i < length ps"
    from c have c1: "mset cur + mset ps \<subseteq># ?M" and c2: "int (length cur) + h \<le> ?H"
      by blast+
    have "mset (cur @ [ps ! i]) + mset (take i ps @ drop (Suc i) ps) \<subseteq># ?M"
      using c1 by (simp only: mset_without_nth[OF i])
    moreover have "int (length (cur @ [ps ! i])) + (h - 1) \<le> ?H"
      using c2 by simp
    ultimately show "mset (cur @ [ps ! i]) + mset (take i ps @ drop (Suc i) ps) \<subseteq># ?M \<and>
          int (length (cur @ [ps ! i])) + (h - 1) \<le> ?H"
      by (rule conjI)
  next
    show "mset [] + mset prs \<subseteq># ?M \<and> int (length ([]::Pair list)) + maxHops \<le> ?H" by simp
  next
    show "\<forall>t\<in>set []. within_budget ?M ?H t" by simp
  qed (rule TrueI)+
  with assms show ?thesis by (simp only: outcome_simps)
qed

lemma mset_without_nth_Cons:
  assumes "i < length prs"
  shows "mset (prs ! i # cur) + mset (take i prs @ drop (Suc i) prs) = mset cur + mset prs"
  using mset_without_nth[OF assms, of cur] by simp

lemma mset_with_nth_Cons:
  assumes "i < length prs" "mset cur + mset prs \<subseteq># M"
  shows "mset (prs ! i # cur) \<subseteq># M"
  using mset_with_nth[OF assms] by simp

lemma bestTradeExactOut_within_budget:
  assumes "bestTradeExactOut W prs tokenIn amountOut mnr maxHops [] orig [] = Inr ts"
  shows "\<forall>t\<in>set ts. within_budget (mset prs) maxHops t"
proof -
  let ?M = "mset prs" and ?H = maxHops
  let ?C = "\<lambda>ps (h::int) cur (a::TokenAmount). mset cur + mset ps \<subseteq># ?M \<and> int (length cur) + h \<le> ?H"
  let ?L = "\<lambda>bt. \<forall>t\<in>set bt. within_budget ?M ?H t"
  have "outcome (\<lambda>e. True) ?L
          (bestTradeExactOut W prs tokenIn amountOut mnr maxHops [] orig [])"
  proof (rule bestTradeExactOut_rule[where C = ?C and L = ?L])
    fix ps :: "Pair list" and h :: int and cur a i inp np bt
    assume c: "mset cur + mset ps \<subseteq># ?M \<and> int (length cur) + h \<le> ?H"
      and l: "\<forall>t\<in>set bt. within_budget ?M ?H t" and i: "i < length ps" and h: "0 < h"
    from c have c1: "mset cur + mset ps \<subseteq># ?M" and c2: "int (length cur) + h \<le> ?H"
      by blast+
    have m: "mset (ps ! i # cur) \<subseteq># ?M" by (rule mset_with_nth_Cons[OF i c1])
    have n: "int (length (ps ! i # cur)) \<le> ?H" using c2 h by simp
    show "outcome (\<lambda>e. True) ?L (found_exact_out W (ps ! i # cur) tokenIn orig mnr bt)"
    proof (cases "found_exact_out W (ps ! i # cur) tokenIn orig mnr bt")
      case (Inl e)
      then show ?thesis by simp
    next
      case (Inr bt')
      then obtain r t where
        "Route_constructor (ps ! i # cur) tokenIn = Inr r"
        "Trade_constructor W r (TokenAmt orig) EXACT_OUTPUT = Inr t"
        "sortedInsert bt t mnr tradeComparator = Inr bt'"
        by (auto simp: found_exact_out_def split: sum.splits)
      from found_route_pairs[OF this l m n] Inr show ?thesis by simp
    qed
  next
    fix ps :: "Pair list" and h :: int and cur and a :: TokenAmount and i and inp :: TokenAmount
    assume c: "mset cur + mset ps \<subseteq># ?M \<and> int (length cur) + h \<le> ?H" and i: "i < length ps"
    from c have c1: "mset cur + mset ps \<subseteq># ?M" and c2: "int (length cur) + h \<le> ?H"
      by blast+
    have "mset (ps ! i # cur) + mset (take i ps @ drop (Suc i) ps) \<subseteq># ?M"
      using c1 by (simp only: mset_without_nth_Cons[OF i])
    moreover have "int (length (ps ! i # cur)) + (h - 1) \<le> ?H"
      using c2 by simp
    ultimately show "mset (ps ! i # cur) + mset (take i ps @ drop (Suc i) ps) \<subseteq># ?M \<and>
          int (length (ps ! i # cur)) + (h - 1) \<le> ?H"
      by (rule conjI)
  next
    show "mset [] + mset prs \<subseteq># ?M \<and> int (length ([]::Pair list)) + maxHops \<le> ?H" by simp
  next
    show "\<forall>t\<in>set []. within_budget ?M ?H t" by simp
  qed (rule TrueI)+
  with assms show ?thesis by (simp only: outcome_simps)
qed

lemma distinct_sub_mset:
  assumes "mset xs \<subseteq># mset ys" "distinct ys"
  shows "distinct xs"
proof -
  have "count (mset ys) a \<le> 1" for a
    using assms(2) by (simp add: distinct_count_atmost_1)
  then have le: "count (mset xs) a \<le> 1" for a
    using mset_subset_eq_count[OF assms(1), of a] by (meson order_trans)
  have "count (mset xs) a = (if a \<in> set xs then 1 else 0)" for a
  proof (cases "a \<in> set xs")
    case True
    then have "0 < count (mset xs) a" by (simp add: count_greater_zero_iff)
    with le[of a] True show ?thesis by (simp del: count_greater_zero_iff)
  next
    case False
    then show ?thesis by (simp add: count_mset_0_iff)
  qed
  then show ?thesis by (simp add: distinct_count_atmost_1)
qed

text \<open>The searches on the small market.\<close>

lemma example_search_in:
  "bestTradeExactIn WETH market amountA100 tokenC 3 3 [] amountA100 [] = Inr [tradeAC, tradeABC]"
  by code_simp

lemma example_search_out:
  "bestTradeExactOut WETH market tokenA amountC100 3 3 [] amountC100 []
     = Inr [tradeAC_out, tradeABC_out]"
  by code_simp

text \<open>
  Claim C4. Every trade that \<open>bestTradeExactIn\<close> or \<open>bestTradeExactOut\<close> returns has a
  route whose pairs are drawn from the candidate pairs, none more often than it occurs
  among them (so none twice when the candidates are distinct), and are at most
  \<open>maxHops\<close> many: each descent takes the chosen pair out of the candidates and one off
  the hop budget.
\<close>

theorem route_pairs_within_budget:
  "(bestTradeExactIn W prs amountIn tokenOut mnr maxHops [] amountIn [] = Inr ts \<and> t \<in> set ts \<longrightarrow>
      mset (pairs (route t)) \<subseteq># mset prs \<and> (distinct prs \<longrightarrow> distinct (pairs (route t))) \<and>
      int (length (pairs (route t))) \<le> maxHops) \<and>
   (bestTradeExactOut W prs tokenIn amountOut mnr maxHops [] amountOut [] = Inr ts' \<and>
    t' \<in> set ts' \<longrightarrow>
      mset (pairs (route t')) \<subseteq># mset prs \<and> (distinct prs \<longrightarrow> distinct (pairs (route t'))) \<and>
      int (length (pairs (route t'))) \<le> maxHops)"
  using bestTradeExactIn_within_budget[of W prs amountIn tokenOut mnr maxHops amountIn ts]
    bestTradeExactOut_within_budget[of W prs tokenIn amountOut mnr maxHops amountOut ts']
  by (auto simp: within_budget_def intro: distinct_sub_mset)


theorem route_pairs_within_budget_witness:
  "bestTradeExactIn WETH market amountA100 tokenC 3 3 [] amountA100 [] = Inr [tradeAC, tradeABC] \<and>
   tradeABC \<in> set [tradeAC, tradeABC] \<and> distinct market \<and>
   mset (pairs (route tradeABC)) \<subseteq># mset market \<and> distinct (pairs (route tradeABC)) \<and>
   int (length (pairs (route tradeABC))) \<le> 3 \<and>
   bestTradeExactOut WETH market tokenA amountC100 3 3 [] amountC100 []
     = Inr [tradeAC_out, tradeABC_out] \<and>
   tradeABC_out \<in> set [tradeAC_out, tradeABC_out] \<and>
   mset (pairs (route tradeABC_out)) \<subseteq># mset market \<and>
   distinct (pairs (route tradeABC_out)) \<and>
   int (length (pairs (route tradeABC_out))) \<le> 3"
proof -
  have d: "distinct market"
    by (simp add: market_def market_defs)
  show ?thesis
    using route_pairs_within_budget[of WETH market amountA100 tokenC 3 3 "[tradeAC, tradeABC]"
        tradeABC tokenA amountC100 "[tradeAC_out, tradeABC_out]" tradeABC_out]
      example_search_in example_search_out d
    by simp
qed


text \<open>The errors of the swaps, of the constructors and of the insertion.\<close>

lemma bigint_divide_error: "bigint_divide a b = Inl e \<Longrightarrow> e = RangeError"
  by (simp add: bigint_divide_def split: if_splits)

lemma getOutputAmount_error:
  assumes "getOutputAmount p a = Inl e"
  shows "e = Invariant ''TOKEN'' \<or> e = RangeError \<or> e = InsufficientInputAmountError \<or>
         (e = InsufficientReservesError \<and> (reserve0 p = 0 \<or> reserve1 p = 0))"
proof (cases "involvesToken p (token a)")
  case False
  with assms show ?thesis by (simp add: getOutputAmount_def)
next
  case inv: True
  show ?thesis
  proof (cases "reserve0 p = 0 \<or> reserve1 p = 0")
    case True
    with assms inv show ?thesis by (simp add: getOutputAmount_def)
  next
    case False
    let ?z = "token_equals (token a) (token0 p)"
    let ?d = "bigint_divide (raw a * 997 * (if ?z then reserve1 p else reserve0 p))
                ((if ?z then reserve0 p else reserve1 p) * 1000 + raw a * 997)"
    show ?thesis
    proof (cases ?d)
      case (Inl e')
      with assms inv False have "e = e'" by (simp add: getOutputAmount_def Let_def)
      with bigint_divide_error[OF Inl] show ?thesis by simp
    next
      case (Inr q)
      with assms inv False show ?thesis
        by (simp add: getOutputAmount_def Let_def split: if_splits)
    qed
  qed
qed

lemma getInputAmount_error:
  assumes "getInputAmount p a = Inl e"
  shows "e = Invariant ''TOKEN'' \<or> e = RangeError \<or> e = InsufficientReservesError"
proof (cases "involvesToken p (token a)")
  case False
  with assms show ?thesis by (simp add: getInputAmount_def)
next
  case inv: True
  let ?z = "token_equals (token a) (token0 p)"
  let ?ro = "if ?z then reserve0 p else reserve1 p"
  let ?ri = "if ?z then reserve1 p else reserve0 p"
  show ?thesis
  proof (cases "raw a < ?ro")
    case False
    with assms inv show ?thesis by (simp add: getInputAmount_def Let_def)
  next
    case True
    let ?d = "bigint_divide (?ri * raw a * 1000) ((?ro - raw a) * 997)"
    show ?thesis
    proof (cases ?d)
      case (Inl e')
      with assms inv True have "e = e'" by (simp add: getInputAmount_def Let_def)
      with bigint_divide_error[OF Inl] show ?thesis by simp
    next
      case (Inr q)
      with assms inv True show ?thesis by (simp add: getInputAmount_def Let_def)
    qed
  qed
qed

lemma exact_in_liquidity_failure_skipped:
  assumes "i < length prs" "getOutputAmount (prs ! i) amountIn = Inl e" "liquidity_failure e"
  shows "bestTradeExactIn_loop W prs i amountIn tokenOut mnr maxHops cur orig bt =
         bestTradeExactIn_loop W prs (Suc i) amountIn tokenOut mnr maxHops cur orig bt"
proof (cases "(\<not> token_equals (token0 (prs ! i)) (token amountIn) \<and>
          \<not> token_equals (token1 (prs ! i)) (token amountIn)) \<or>
         reserve0 (prs ! i) = 0 \<or> reserve1 (prs ! i) = 0")
  case True
  then show ?thesis by (rule bestTradeExactIn_loop_skip[OF assms(1)])
next
  case False
  then have "e = InsufficientInputAmountError"
    using getOutputAmount_error[OF assms(2)] assms(3) by (auto simp: liquidity_failure_def)
  then show ?thesis
    using False assms(2) by (subst bestTradeExactIn_loop_swap[OF assms(1)]) auto
qed

lemma exact_out_liquidity_failure_skipped:
  assumes "i < length prs" "getInputAmount (prs ! i) amountOut = Inl e" "liquidity_failure e"
  shows "bestTradeExactOut_loop W prs i tokenIn amountOut mnr maxHops cur orig bt =
         bestTradeExactOut_loop W prs (Suc i) tokenIn amountOut mnr maxHops cur orig bt"
proof (cases "(\<not> token_equals (token0 (prs ! i)) (token amountOut) \<and>
          \<not> token_equals (token1 (prs ! i)) (token amountOut)) \<or>
         reserve0 (prs ! i) = 0 \<or> reserve1 (prs ! i) = 0")
  case True
  then show ?thesis by (rule bestTradeExactOut_loop_skip[OF assms(1)])
next
  case False
  then have "e = InsufficientReservesError"
    using getInputAmount_error[OF assms(2)] assms(3) by (auto simp: liquidity_failure_def)
  then show ?thesis
    using False assms(2) by (subst bestTradeExactOut_loop_swap[OF assms(1)]) auto
qed

lemma price_product_error: "price_product acc xs = Inl e \<Longrightarrow> \<not> liquidity_failure e"
proof (induction xs arbitrary: acc)
  case Nil
  then show ?case by simp
next
  case (Cons x xs)
  show ?case
  proof (cases "price_multiply acc x")
    case (Inl e')
    with Cons.prems have "e = e'" by simp
    with Inl show ?thesis
      by (auto simp: price_multiply_def liquidity_failure_def Let_def split: if_splits)
  next
    case (Inr a)
    with Cons.prems Cons.IH[of a] show ?thesis by simp
  qed
qed

lemma Price_fromRoute_error: "Price_fromRoute ps pth = Inl e \<Longrightarrow> \<not> liquidity_failure e"
  by (cases "map (\<lambda>(p, t). pair_price p t) (zip ps pth)")
     (auto simp: Price_fromRoute_def liquidity_failure_def dest: price_product_error)

lemma route_path_error: "route_path ps t = Inl e \<Longrightarrow> e = Invariant ''PATH''"
  by (induction ps t rule: route_path.induct) (auto split: if_splits sum.splits)

lemma Route_constructor_error:
  assumes "Route_constructor ps inp = Inl e"
  shows "\<not> liquidity_failure e"
proof (cases "route_path ps inp")
  case (Inl e')
  with assms route_path_error[OF Inl] show ?thesis
    by (auto simp: Route_constructor_def liquidity_failure_def split: if_splits)
next
  case (Inr pth)
  show ?thesis
  proof (cases "Price_fromRoute ps pth")
    case (Inl e')
    with assms Inr Price_fromRoute_error[OF Inl] show ?thesis
      by (auto simp: Route_constructor_def liquidity_failure_def split: if_splits)
  next
    case Inr': (Inr mp)
    with assms Inr show ?thesis
      by (auto simp: Route_constructor_def liquidity_failure_def split: if_splits)
  qed
qed

lemma tradeComparator_error: "tradeComparator a b = Inl e \<Longrightarrow> \<not> liquidity_failure e"
  by (cases "inputOutputComparator (inputAmount a) (outputAmount a) (inputAmount b)
              (outputAmount b)")
     (auto simp: tradeComparator_def inputOutputComparator_def liquidity_failure_def
        split: if_splits)

lemma insert_ranked_error:
  assumes "\<And>x y e. cmp x y = Inl e \<Longrightarrow> \<not> liquidity_failure e"
  shows "insert_ranked cmp add xs = Inl e \<Longrightarrow> \<not> liquidity_failure e"
proof (induction xs)
  case Nil
  then show ?case by simp
next
  case (Cons x xs)
  show ?case
  proof (cases "cmp x add")
    case (Inl e')
    with Cons.prems assms[OF Inl] show ?thesis by simp
  next
    case (Inr c)
    show ?thesis
    proof (cases "insert_ranked cmp add xs")
      case (Inl e')
      with Cons.prems Inr Cons.IH show ?thesis by (auto split: if_splits)
    next
      case Inr': (Inr ys)
      with Cons.prems Inr show ?thesis by (auto split: if_splits)
    qed
  qed
qed

lemma sortedInsert_error:
  assumes "sortedInsert bt t mnr tradeComparator = Inl e"
  shows "\<not> liquidity_failure e"
proof (cases "insert_ranked tradeComparator t bt")
  case (Inl e')
  with assms have "e = e'" by (simp add: sortedInsert_def)
  with insert_ranked_error[OF tradeComparator_error Inl] show ?thesis by simp
next
  case (Inr ys)
  with assms show ?thesis by (simp add: sortedInsert_def)
qed

lemma Trade_constructor_error:
  assumes "Trade_constructor W r amount tt = Inl e"
    and "trade_amounts W r amount tt = Inr (amounts, nextPairs)"
  shows "\<not> liquidity_failure e"
proof (cases "length nextPairs < length (pairs r)")
  case True
  with assms show ?thesis by (simp add: Trade_constructor_def liquidity_failure_def)
next
  case False
  show ?thesis
  proof (cases "Route_constructor nextPairs (input r)")
    case (Inl e')
    with assms False Route_constructor_error[OF Inl] show ?thesis
      by (simp add: Trade_constructor_def)
  next
    case (Inr nr)
    show ?thesis
    proof (cases "Price_fromRoute (pairs nr) (path nr)")
      case (Inl e')
      with assms False Inr Price_fromRoute_error[OF Inl] show ?thesis
        by (simp add: Trade_constructor_def)
    next
      case Inr': (Inr nmp)
      with assms False Inr show ?thesis by (simp add: Trade_constructor_def)
    qed
  qed
qed

lemma amounts_exact_in_snoc:
  assumes "amounts_exact_in ps (length ps) a = Inr (amounts, nextPairs)"
    and "getOutputAmount p (last amounts) = Inr (out, np)"
  shows "amounts_exact_in (ps @ [p]) (Suc (length ps)) a = Inr (amounts @ [out], nextPairs @ [np])"
  using assms
proof (induction ps arbitrary: a amounts nextPairs)
  case Nil
  then show ?case by auto
next
  case (Cons q qs)
  from Cons.prems(1) obtain o1 n1 where g: "getOutputAmount q a = Inr (o1, n1)"
    by (cases "getOutputAmount q a") auto
  with Cons.prems(1) obtain as' nps' where
    r: "amounts_exact_in qs (length qs) o1 = Inr (as', nps')"
    and e: "amounts = a # as'" "nextPairs = n1 # nps'"
    by (cases "amounts_exact_in qs (length qs) o1") auto
  have ne: "as' \<noteq> []" using amounts_exact_in_shape[OF r] by simp
  have "getOutputAmount p (last as') = Inr (out, np)"
    using Cons.prems(2) e ne by simp
  from Cons.IH[OF r this] g e show ?case by simp
qed

lemma amounts_exact_out_snoc:
  assumes "amounts_exact_out ps a = Inr (amounts, nextPairs)"
    and "getInputAmount p (hd amounts) = Inr (inp, np)"
  shows "amounts_exact_out (ps @ [p]) a = Inr (inp # amounts, np # nextPairs)"
  using assms
proof (induction ps arbitrary: a amounts nextPairs)
  case Nil
  then show ?case by auto
next
  case (Cons q qs)
  from Cons.prems(1) obtain i1 n1 where g: "getInputAmount q a = Inr (i1, n1)"
    by (cases "getInputAmount q a") auto
  with Cons.prems(1) obtain as' nps' where
    r: "amounts_exact_out qs i1 = Inr (as', nps')"
    and e: "amounts = as' @ [a]" "nextPairs = nps' @ [n1]"
    by (cases "amounts_exact_out qs i1") auto
  have ne: "as' \<noteq> []" using amounts_exact_out_shape[OF r] by simp
  have "getInputAmount p (hd as') = Inr (inp, np)"
    using Cons.prems(2) e ne by simp
  from Cons.IH[OF r this] g e show ?case by simp
qed

lemma walked_in_Nil: "walked_in [] orig orig"
  by (simp add: walked_in_def)

lemma walked_out_Nil: "walked_out [] orig orig"
  by (simp add: walked_out_def)

lemma walked_in_step:
  assumes "walked_in cur orig a" "getOutputAmount p a = Inr (out, np)"
  shows "walked_in (cur @ [p]) orig out"
proof -
  from assms(1) obtain amounts nps where
    w: "amounts_exact_in cur (length cur) orig = Inr (amounts, nps)" and l: "last amounts = a"
    by (auto simp: walked_in_def)
  from amounts_exact_in_snoc[OF w] assms(2) l
  have "amounts_exact_in (cur @ [p]) (Suc (length cur)) orig = Inr (amounts @ [out], nps @ [np])"
    by simp
  then show ?thesis by (simp add: walked_in_def)
qed

lemma walked_out_step:
  assumes "walked_out cur orig a" "getInputAmount p a = Inr (inp, np)"
  shows "walked_out (p # cur) orig inp"
proof -
  from assms(1) obtain amounts nps where
    w: "amounts_exact_out (rev cur) orig = Inr (amounts, nps)" and l: "hd amounts = a"
    by (auto simp: walked_out_def)
  from amounts_exact_out_snoc[OF w] assms(2) l
  have "amounts_exact_out (rev cur @ [p]) orig = Inr (inp # amounts, np # nps)"
    by simp
  then show ?thesis by (simp add: walked_out_def)
qed

lemma trade_amounts_found_in:
  assumes "walked_in cur orig a" "getOutputAmount p a = Inr (out, np)"
    and "Route_constructor (cur @ [p]) (token orig) = Inr r"
  shows "\<exists>amounts nps. trade_amounts W r (TokenAmt orig) EXACT_INPUT = Inr (amounts, nps) \<and>
           hd amounts = orig \<and> last amounts = out \<and> length nps = Suc (length cur)"
proof -
  from walked_in_step[OF assms(1,2)] obtain amounts nps where
    w: "amounts_exact_in (cur @ [p]) (length (cur @ [p])) orig = Inr (amounts, nps)"
    and l: "last amounts = out"
    by (auto simp: walked_in_def)
  note f = Route_constructor_fields[OF assms(3)]
  have "trade_amounts W r (TokenAmt orig) EXACT_INPUT =
          amounts_exact_in (cur @ [p]) (length (cur @ [p])) orig"
    using f(1,2,4) by (simp add: trade_amounts_def wrappedAmount_def)
  with w l amounts_exact_in_shape[OF w] show ?thesis by simp
qed

lemma trade_amounts_found_out:
  assumes "walked_out cur orig a" "getInputAmount p a = Inr (inp, np)"
    and "Route_constructor (p # cur) tokenIn = Inr r"
  shows "trade_amounts W r (TokenAmt orig) EXACT_OUTPUT = Inl (Invariant ''OUTPUT'') \<or>
         (\<exists>amounts nps. trade_amounts W r (TokenAmt orig) EXACT_OUTPUT = Inr (amounts, nps) \<and>
           hd amounts = inp \<and> last amounts = orig \<and> length nps = Suc (length cur) \<and>
           token_equals (token orig) (route_output r))"
proof -
  from walked_out_step[OF assms(1,2)] obtain amounts nps where
    w: "amounts_exact_out (rev (p # cur)) orig = Inr (amounts, nps)"
    and l: "hd amounts = inp"
    by (auto simp: walked_out_def)
  note f = Route_constructor_fields[OF assms(3)]
  show ?thesis
  proof (cases "token_equals (token orig) (route_output r)")
    case False
    then show ?thesis by (simp add: trade_amounts_def)
  next
    case True
    then have "trade_amounts W r (TokenAmt orig) EXACT_OUTPUT =
          amounts_exact_out (rev (p # cur)) orig"
      using f(1,4) by (simp add: trade_amounts_def wrappedAmount_def)
    with w l amounts_exact_out_shape[OF w] True show ?thesis by simp
  qed
qed

lemma found_exact_in_error:
  assumes "walked_in cur orig a" "getOutputAmount p a = Inr (out, np)"
    and "found_exact_in W (cur @ [p]) orig mnr bt = Inl e"
  shows "\<not> liquidity_failure e"
proof (cases "Route_constructor (cur @ [p]) (token orig)")
  case (Inl e')
  with assms(3) Route_constructor_error[OF Inl] show ?thesis by (simp add: found_exact_in_def)
next
  case (Inr r)
  from trade_amounts_found_in[OF assms(1,2) Inr, of W] obtain amounts nps where
    ta: "trade_amounts W r (TokenAmt orig) EXACT_INPUT = Inr (amounts, nps)" by blast
  show ?thesis
  proof (cases "Trade_constructor W r (TokenAmt orig) EXACT_INPUT")
    case (Inl e')
    with assms(3) Inr Trade_constructor_error[OF Inl ta] show ?thesis
      by (simp add: found_exact_in_def)
  next
    case Inr': (Inr t)
    with assms(3) Inr have "sortedInsert bt t mnr tradeComparator = Inl e"
      by (simp add: found_exact_in_def)
    then show ?thesis by (rule sortedInsert_error)
  qed
qed

lemma found_exact_out_error:
  assumes "walked_out cur orig a" "getInputAmount p a = Inr (inp, np)"
    and "found_exact_out W (p # cur) tokenIn orig mnr bt = Inl e"
  shows "\<not> liquidity_failure e"
proof (cases "Route_constructor (p # cur) tokenIn")
  case (Inl e')
  with assms(3) Route_constructor_error[OF Inl] show ?thesis by (simp add: found_exact_out_def)
next
  case (Inr r)
  show ?thesis
  proof (cases "Trade_constructor W r (TokenAmt orig) EXACT_OUTPUT")
    case (Inl e')
    from trade_amounts_found_out[OF assms(1,2) Inr, of W] show ?thesis
    proof
      assume "trade_amounts W r (TokenAmt orig) EXACT_OUTPUT = Inl (Invariant ''OUTPUT'')"
      with Inl have "e' = Invariant ''OUTPUT''" by (simp add: Trade_constructor_def)
      with assms(3) Inr Inl show ?thesis
        by (auto simp: found_exact_out_def liquidity_failure_def)
    next
      assume "\<exists>amounts nps. trade_amounts W r (TokenAmt orig) EXACT_OUTPUT = Inr (amounts, nps) \<and>
           hd amounts = inp \<and> last amounts = orig \<and> length nps = Suc (length cur) \<and>
           token_equals (token orig) (route_output r)"
      then obtain amounts nps where
        ta: "trade_amounts W r (TokenAmt orig) EXACT_OUTPUT = Inr (amounts, nps)" by blast
      with assms(3) Inr Inl Trade_constructor_error[OF Inl ta] show ?thesis
        by (simp add: found_exact_out_def)
    qed
  next
    case Inr': (Inr t)
    with assms(3) Inr have "sortedInsert bt t mnr tradeComparator = Inl e"
      by (simp add: found_exact_out_def)
    then show ?thesis by (rule sortedInsert_error)
  qed
qed

lemma bestTradeExactIn_no_liquidity_failure:
  "outcome (\<lambda>e. \<not> liquidity_failure e) (\<lambda>ts. True)
     (bestTradeExactIn W prs amountIn tokenOut mnr maxHops [] amountIn [])"
proof (rule bestTradeExactIn_rule[where C = "\<lambda>ps h cur a. walked_in cur amountIn a"
      and L = "\<lambda>ts. True"])
  fix ps :: "Pair list" and cur a i e
  assume "reserve0 (ps ! i) \<noteq> 0" "reserve1 (ps ! i) \<noteq> 0"
    "getOutputAmount (ps ! i) a = Inl e" "e \<noteq> InsufficientInputAmountError"
  then show "\<not> liquidity_failure e"
    using getOutputAmount_error[of "ps ! i" a e] by (auto simp: liquidity_failure_def)
next
  fix ps :: "Pair list" and cur a i out np bt
  assume w: "walked_in cur amountIn a" and g: "getOutputAmount (ps ! i) a = Inr (out, np)"
  show "outcome (\<lambda>e. \<not> liquidity_failure e) (\<lambda>ts. True)
          (found_exact_in W (cur @ [ps ! i]) amountIn mnr bt)"
    using found_exact_in_error[OF w g]
    by (cases "found_exact_in W (cur @ [ps ! i]) amountIn mnr bt") simp_all
next
  fix ps :: "Pair list" and cur a i out np
  assume "walked_in cur amountIn a" "getOutputAmount (ps ! i) a = Inr (out, np)"
  then show "walked_in (cur @ [ps ! i]) amountIn out" by (rule walked_in_step)
qed (simp_all add: liquidity_failure_def walked_in_Nil)

lemma bestTradeExactOut_no_liquidity_failure:
  "outcome (\<lambda>e. \<not> liquidity_failure e) (\<lambda>ts. True)
     (bestTradeExactOut W prs tokenIn amountOut mnr maxHops [] amountOut [])"
proof (rule bestTradeExactOut_rule[where C = "\<lambda>ps h cur a. walked_out cur amountOut a"
      and L = "\<lambda>ts. True"])
  fix ps :: "Pair list" and cur a i e
  assume "getInputAmount (ps ! i) a = Inl e" "e \<noteq> InsufficientReservesError"
  then show "\<not> liquidity_failure e"
    using getInputAmount_error[of "ps ! i" a e] by (auto simp: liquidity_failure_def)
next
  fix ps :: "Pair list" and cur a i inp np bt
  assume w: "walked_out cur amountOut a" and g: "getInputAmount (ps ! i) a = Inr (inp, np)"
  show "outcome (\<lambda>e. \<not> liquidity_failure e) (\<lambda>ts. True)
          (found_exact_out W (ps ! i # cur) tokenIn amountOut mnr bt)"
    using found_exact_out_error[OF w g]
    by (cases "found_exact_out W (ps ! i # cur) tokenIn amountOut mnr bt") simp_all
next
  fix ps :: "Pair list" and cur a i inp np
  assume "walked_out cur amountOut a" "getInputAmount (ps ! i) a = Inr (inp, np)"
  then show "walked_out (ps ! i # cur) amountOut inp" by (rule walked_out_step)
qed (simp_all add: liquidity_failure_def walked_out_Nil)


text \<open>
  Claim C1. In \<open>bestTradeExactIn\<close> and in \<open>bestTradeExactOut\<close>, when the swap on the
  candidate pair at index \<open>i\<close> fails with one of the two liquidity failures, the loop
  goes on at index \<open>i + 1\<close> with the result list as it was: the pair is skipped and
  the remaining candidates are searched. No call of either search from the outside
  raises a liquidity failure.
\<close>

theorem liquidity_failures_caught:
  "(i < length prs \<and> getOutputAmount (prs ! i) amountIn = Inl e \<and> liquidity_failure e \<longrightarrow>
      bestTradeExactIn_loop W prs i amountIn tokenOut mnr maxHops cur orig bt =
      bestTradeExactIn_loop W prs (Suc i) amountIn tokenOut mnr maxHops cur orig bt) \<and>
   (i < length prs \<and> getInputAmount (prs ! i) amountOut = Inl e' \<and> liquidity_failure e' \<longrightarrow>
      bestTradeExactOut_loop W prs i tokenIn amountOut mnr maxHops cur orig bt =
      bestTradeExactOut_loop W prs (Suc i) tokenIn amountOut mnr maxHops cur orig bt) \<and>
   (\<forall>x. bestTradeExactIn W prs amountIn tokenOut mnr maxHops [] amountIn [] = Inl x \<longrightarrow>
      \<not> liquidity_failure x) \<and>
   (\<forall>x. bestTradeExactOut W prs tokenIn amountOut mnr maxHops [] amountOut [] = Inl x \<longrightarrow>
      \<not> liquidity_failure x)"
  using exact_in_liquidity_failure_skipped[of i prs amountIn e W tokenOut mnr maxHops cur orig bt]
    exact_out_liquidity_failure_skipped[of i prs amountOut e' W tokenIn mnr maxHops cur orig bt]
    bestTradeExactIn_no_liquidity_failure[of W prs amountIn tokenOut mnr maxHops]
    bestTradeExactOut_no_liquidity_failure[of W prs tokenIn amountOut mnr maxHops]
  by auto

theorem liquidity_failures_caught_witness:
  "getOutputAmount ([pairAB, pairAC] ! 0) amountA1 = Inl InsufficientInputAmountError \<and>
   liquidity_failure InsufficientInputAmountError \<and>
   bestTradeExactIn_loop WETH [pairAB, pairAC] 0 amountA1 tokenC 3 3 [] amountA1 [] =
   bestTradeExactIn_loop WETH [pairAB, pairAC] (Suc 0) amountA1 tokenC 3 3 [] amountA1 [] \<and>
   map_sum id (map (\<lambda>t. pairs (route t)))
     (bestTradeExactIn WETH [pairAB, pairAC] amountA1 tokenC 3 3 [] amountA1 []) = Inr [[pairAC]] \<and>
   getInputAmount ([pairBC, pairAC] ! 0) amountC1000 = Inl InsufficientReservesError \<and>
   liquidity_failure InsufficientReservesError \<and>
   bestTradeExactOut_loop WETH [pairBC, pairAC] 0 tokenA amountC1000 3 3 [] amountC1000 [] =
   bestTradeExactOut_loop WETH [pairBC, pairAC] (Suc 0) tokenA amountC1000 3 3 [] amountC1000 [] \<and>
   map_sum id (map (\<lambda>t. pairs (route t)))
     (bestTradeExactOut WETH [pairBC, pairAC] tokenA amountC1000 3 3 [] amountC1000 [])
     = Inr [[pairAC]]"
proof -
  have g1: "getOutputAmount ([pairAB, pairAC] ! 0) amountA1 = Inl InsufficientInputAmountError"
    by code_simp
  have g2: "getInputAmount ([pairBC, pairAC] ! 0) amountC1000 = Inl InsufficientReservesError"
    by code_simp
  have s1: "map_sum id (map (\<lambda>t. pairs (route t)))
     (bestTradeExactIn WETH [pairAB, pairAC] amountA1 tokenC 3 3 [] amountA1 []) = Inr [[pairAC]]"
    by code_simp
  have s2: "map_sum id (map (\<lambda>t. pairs (route t)))
     (bestTradeExactOut WETH [pairBC, pairAC] tokenA amountC1000 3 3 [] amountC1000 [])
     = Inr [[pairAC]]"
    by code_simp
  show ?thesis
    using liquidity_failures_caught[where i = 0 and prs = "[pairAB, pairAC]"
        and amountIn = amountA1 and e = InsufficientInputAmountError and W = WETH
        and tokenOut = tokenC and mnr = 3 and maxHops = 3 and cur = "[]" and orig = amountA1
        and bt = "[]" and amountOut = amountC1000 and e' = InsufficientInputAmountError
        and tokenIn = tokenA]
      liquidity_failures_caught[where i = 0 and prs = "[pairBC, pairAC]"
        and amountIn = amountA1 and e = InsufficientInputAmountError and W = WETH
        and tokenOut = tokenC and mnr = 3 and maxHops = 3 and cur = "[]" and orig = amountC1000
        and bt = "[]" and amountOut = amountC1000 and e' = InsufficientReservesError
        and tokenIn = tokenA]
      g1 g2 s1 s2
    by (simp add: liquidity_failure_def)
qed


text \<open>The ranking as an order of keys, and the result list of the search.\<close>

lemma spec_ranks_before_key: "spec_ranks_before a b \<longleftrightarrow> trade_key a < trade_key b"
  by (auto simp: spec_ranks_before_def trade_key_def less_prod_def)

lemma currencyEquals_via:
  assumes "currencyEquals x (TokenCurrency t)" "currencyEquals y (TokenCurrency t)"
  shows "currencyEquals x y"
  using assms by (cases x; cases y) (auto simp: token_equals_def)

lemma tradeComparator_key:
  assumes "comparable tin tout a" "comparable tin tout b"
  shows "\<exists>c. tradeComparator a b = Inr c \<and> (c \<le> 0 \<longleftrightarrow> trade_key a \<le> trade_key b)"
proof -
  have ci: "currencyEquals (currency (inputAmount a)) (currency (inputAmount b))"
    and co: "currencyEquals (currency (outputAmount a)) (currency (outputAmount b))"
    using assms by (auto simp: comparable_def intro: currencyEquals_via)
  have d: "0 < denominator (priceImpact a)" "0 < denominator (priceImpact b)"
    using assms by (auto simp: comparable_def)
  from tradeComparator_value[OF ci co d] obtain c where
    c: "tradeComparator a b = Inr c" "c < 0 \<longleftrightarrow> spec_ranks_before a b"
       "0 < c \<longleftrightarrow> spec_ranks_before b a"
    by blast
  have "c \<le> 0 \<longleftrightarrow> trade_key a \<le> trade_key b"
    using c(3) by (simp add: spec_ranks_before_key not_less[symmetric])
  with c(1) show ?thesis by blast
qed

lemma insert_ranked_sorted:
  assumes "comparable tin tout add"
  shows "\<forall>x\<in>set xs. comparable tin tout x \<Longrightarrow> sorted (map trade_key xs) \<Longrightarrow>
         \<exists>ys. insert_ranked tradeComparator add xs = Inr ys \<and> sorted (map trade_key ys)"
proof (induction xs)
  case Nil
  then show ?case by simp
next
  case (Cons x xs)
  from tradeComparator_key[of tin tout x add] Cons.prems(1) assms obtain c where
    c: "tradeComparator x add = Inr c" "c \<le> 0 \<longleftrightarrow> trade_key x \<le> trade_key add"
    by auto
  show ?case
  proof (cases "c \<le> 0")
    case True
    from Cons.IH Cons.prems obtain ys where
      ys: "insert_ranked tradeComparator add xs = Inr ys" "sorted (map trade_key ys)"
      by auto
    have "set ys = insert add (set xs)" using insert_ranked_set[OF ys(1)] by simp
    then have "\<forall>y\<in>set ys. trade_key x \<le> trade_key y"
      using Cons.prems(2) c(2) True by auto
    then have "sorted (map trade_key (x # ys))" using ys(2) by simp
    moreover have "insert_ranked tradeComparator add (x # xs) = Inr (x # ys)"
      using c(1) True ys(1) by simp
    ultimately show ?thesis by blast
  next
    case False
    then have lt: "trade_key add < trade_key x" using c(2) by simp
    have "\<forall>y\<in>set xs. trade_key x \<le> trade_key y" using Cons.prems(2) by simp
    then have "\<forall>y\<in>set (x # xs). trade_key add \<le> trade_key y"
      using lt by (auto intro: less_imp_le order_trans)
    then have "sorted (map trade_key (add # x # xs))" using Cons.prems(2) by simp
    moreover have "insert_ranked tradeComparator add (x # xs) = Inr (add # x # xs)"
      using c(1) False by simp
    ultimately show ?thesis by blast
  qed
qed


lemma insert_ranked_mset:
  "insert_ranked cmp add xs = Inr ys \<Longrightarrow> mset ys = add_mset add (mset xs)"
proof (induction xs arbitrary: ys)
  case Nil
  then show ?case by auto
next
  case (Cons x xs)
  from Cons.prems obtain c where c: "cmp x add = Inr c"
    by (cases "cmp x add") simp_all
  show ?case
  proof (cases "c \<le> 0")
    case True
    with Cons.prems c obtain zs where zs: "insert_ranked cmp add xs = Inr zs" and ys: "ys = x # zs"
      by (cases "insert_ranked cmp add xs") auto
    from Cons.IH[OF zs] ys show ?thesis by simp
  next
    case False
    with Cons.prems c have "ys = add # x # xs" by simp
    then show ?thesis by simp
  qed
qed

text \<open>
  An insertion into a bounded ranked list of comparable trades: the new trade is put in
  its place among the entries; when the list then exceeds the cap its last entry goes,
  and no entry that stays ranks after the one that goes.
\<close>

lemma sortedInsert_discards_worst:
  assumes "kept tin tout mnr items" "comparable tin tout add"
  shows "\<exists>ys. mset ys = add_mset add (mset items) \<and> sorted (map trade_key ys) \<and>
           sortedInsert items add mnr tradeComparator =
             Inr (if mnr < int (length ys) then butlast ys else ys) \<and>
           (\<forall>k\<in>set (butlast ys). trade_key k \<le> trade_key (last ys))"
proof -
  from assms have s: "sorted (map trade_key items)"
    and a: "\<forall>x\<in>set items. comparable tin tout x"
    by (auto simp: kept_def)
  from insert_ranked_sorted[OF assms(2) a s] obtain ys where
    ys: "insert_ranked tradeComparator add items = Inr ys" "sorted (map trade_key ys)" by blast
  have ne: "ys \<noteq> []" using insert_ranked_set[OF ys(1)] by auto
  have "\<forall>k\<in>set (butlast ys). trade_key k \<le> trade_key (last ys)"
  proof
    fix k assume "k \<in> set (butlast ys)"
    then obtain i where i: "i < length (butlast ys)" "butlast ys ! i = k"
      by (auto simp: in_set_conv_nth)
    then have "i < length ys - 1" by simp
    then have "map trade_key ys ! i \<le> map trade_key ys ! (length ys - 1)"
      using ys(2) ne by (intro sorted_nth_mono) auto
    then show "trade_key k \<le> trade_key (last ys)"
      using i ne by (simp add: nth_butlast last_conv_nth)
  qed
  with ys insert_ranked_mset[OF ys(1)] show ?thesis
    by (auto simp: sortedInsert_def)
qed
















section \<open>Properties: the arrays of the caller\<close>

text \<open>
  Both searches on the store return, with the result of the searches on lists, and every
  write they make goes to an array allocated during the call.
\<close>

lemma frame_refl [simp]: "frame h h"
  by (simp add: frame_def)

lemma frame_trans: "frame h1 h2 \<Longrightarrow> frame h2 h3 \<Longrightarrow> frame h1 h3"
  by (simp add: frame_def)

lemma frame_alloc [simp]: "frame h (alloc h xs)"
  by (simp add: frame_def alloc_def nth_append)

lemma holds_frame: "holds h r ps \<Longrightarrow> frame h h' \<Longrightarrow> holds h' r ps"
  by (simp add: holds_def frame_def)

lemma holds_alloc_new [simp]: "holds (alloc h (map Some ps)) (length h) ps"
  by (simp add: holds_def alloc_def)

lemma heap_write_length [simp]: "length (heap_write h r i v) = length h"
  by (simp add: heap_write_def)

lemma frame_heap_write:
  assumes "frame h0 h" "length h0 \<le> r"
  shows "frame h0 (heap_write h r i v)"
  using assms by (simp add: frame_def heap_write_def)

lemma amounts_exact_in_st_frame:
  "frame h0 h \<Longrightarrow> length h0 \<le> r \<Longrightarrow> frame h0 (amounts_exact_in_st h r i ps n a)"
proof (induction h r i ps n a rule: amounts_exact_in_st.induct)
  case (3 h nextPairs i p ps n a)
  show ?case
  proof (cases "getOutputAmount p a")
    case (Inl e)
    then show ?thesis using "3.prems" by simp
  next
    case (Inr b)
    obtain out np where b: "b = (out, np)" by (cases b)
    have "frame h0 (heap_write h nextPairs i np)"
      by (rule frame_heap_write[OF "3.prems"])
    from "3.IH"[OF Inr b[symmetric] this "3.prems"(2)] Inr b show ?thesis by simp
  qed
qed simp_all

lemma amounts_exact_out_st_frame:
  "frame h0 h \<Longrightarrow> length h0 \<le> r \<Longrightarrow> frame h0 (amounts_exact_out_st h r ps a)"
proof (induction h r ps a rule: amounts_exact_out_st.induct)
  case (2 h nextPairs p ps a)
  show ?case
  proof (cases "getInputAmount p a")
    case (Inl e)
    then show ?thesis using "2.prems" by simp
  next
    case (Inr b)
    obtain inp np where b: "b = (inp, np)" by (cases b)
    have "frame h0 (heap_write h nextPairs (length ps) np)"
      by (rule frame_heap_write[OF "2.prems"])
    from "2.IH"[OF Inr b[symmetric] this "2.prems"(2)] Inr b show ?thesis by simp
  qed
qed simp_all

lemma Trade_constructor_st_frame: "frame h (fst (Trade_constructor_st W h r amount tt))"
proof -
  let ?h1 = "alloc h (replicate (length (pairs r)) None)"
  have a: "frame h ?h1" by simp
  note i = amounts_exact_in_st_frame[OF a order_refl]
  note o = amounts_exact_out_st_frame[OF a order_refl]
  show ?thesis
  proof (cases tt)
    case EXACT_INPUT
    then show ?thesis
      using a i by (cases "wrappedAmount W amount (chainId (input r))")
        (simp_all add: Trade_constructor_st_def Let_def)
  next
    case EXACT_OUTPUT
    then show ?thesis
      using a o by (cases "wrappedAmount W amount (chainId (route_output r))")
        (simp_all add: Trade_constructor_st_def Let_def)
  qed
qed

lemma Trade_constructor_st_value [simp]:
  "snd (Trade_constructor_st W h r amount tt) = Trade_constructor W r amount tt"
  by (simp add: Trade_constructor_st_def Let_def)

lemma those_map_Some [simp]: "those (map Some xs) = Some xs"
  by (induction xs) simp_all

lemma found_exact_in_st_refines:
  assumes "holds h r ps"
  shows "snd (found_exact_in_st W h r orig mnr bt) = found_exact_in W ps orig mnr bt"
    and "frame h (fst (found_exact_in_st W h r orig mnr bt))"
proof -
  have hr: "those (h ! r) = Some ps" using assms by (simp add: holds_def)
  show "snd (found_exact_in_st W h r orig mnr bt) = found_exact_in W ps orig mnr bt"
  proof (cases "Route_constructor ps (token orig)")
    case (Inl e)
    then show ?thesis by (simp add: found_exact_in_st_def found_exact_in_def hr)
  next
    case (Inr rt)
    let ?t = "Trade_constructor_st W h rt (TokenAmt orig) EXACT_INPUT"
    have t: "?t = (fst ?t, Trade_constructor W rt (TokenAmt orig) EXACT_INPUT)"
      by (simp add: prod_eq_iff)
    show ?thesis
      by (cases "Trade_constructor W rt (TokenAmt orig) EXACT_INPUT")
         (simp_all add: found_exact_in_st_def found_exact_in_def hr Inr,
          (subst t, simp)+)
  qed
  show "frame h (fst (found_exact_in_st W h r orig mnr bt))"
  proof (cases "Route_constructor ps (token orig)")
    case (Inl e)
    then show ?thesis by (simp add: found_exact_in_st_def hr)
  next
    case (Inr rt)
    let ?t = "Trade_constructor_st W h rt (TokenAmt orig) EXACT_INPUT"
    have t: "?t = (fst ?t, Trade_constructor W rt (TokenAmt orig) EXACT_INPUT)"
      by (simp add: prod_eq_iff)
    have f: "frame h (fst ?t)" by (rule Trade_constructor_st_frame)
    show ?thesis
      by (cases "Trade_constructor W rt (TokenAmt orig) EXACT_INPUT")
         (simp_all add: found_exact_in_st_def hr Inr, (subst t, simp add: f)+)
  qed
qed

lemma alloc_nth_old [simp]: "a < length h \<Longrightarrow> alloc h xs ! a = h ! a"
  by (simp add: alloc_def nth_append)

lemma alloc_nth_new [simp]: "alloc h xs ! length h = xs"
  by (simp add: alloc_def)

lemma alloc_length [simp]: "length (alloc h xs) = Suc (length h)"
  by (simp add: alloc_def)

lemma bestTradeExactIn_st_entry:
  "bestTradeExactIn_st (state_in W h pr None a tOut mnr mh cr orig bt) =
     (if \<not> length (h ! pr) > 0 then Some (h, Inl (Invariant ''PAIRS''))
      else if \<not> mh > 0 then Some (h, Inl (Invariant ''MAX_HOPS''))
      else if \<not> (orig = a \<or> length (h ! cr) > 0)
      then Some (h, Inl (Invariant ''INVALID_RECURSION''))
      else bestTradeExactIn_st (state_in W h pr (Some 0) a tOut mnr mh cr orig bt))"
  by (subst bestTradeExactIn_st.simps) (simp add: state_in_def)

lemma bestTradeExactIn_st_end:
  "\<not> i < length (h ! pr) \<Longrightarrow>
   bestTradeExactIn_st (state_in W h pr (Some i) a tOut mnr mh cr orig bt) = Some (h, Inr bt)"
  by (subst bestTradeExactIn_st.simps) (simp add: state_in_def)

lemma bestTradeExactIn_st_skip:
  assumes "i < length (h ! pr)" "h ! pr ! i = Some pair"
    and "(\<not> token_equals (token0 pair) (token a) \<and> \<not> token_equals (token1 pair) (token a)) \<or>
         reserve0 pair = 0 \<or> reserve1 pair = 0"
  shows "bestTradeExactIn_st (state_in W h pr (Some i) a tOut mnr mh cr orig bt) =
         bestTradeExactIn_st (state_in W h pr (Some (Suc i)) a tOut mnr mh cr orig bt)"
  using assms by (subst bestTradeExactIn_st.simps) (auto simp: state_in_def)

lemma bestTradeExactIn_st_swap:
  assumes "i < length (h ! pr)" "h ! pr ! i = Some pair" "pr < length h" "cr < length h"
    and "token_equals (token0 pair) (token a) \<or> token_equals (token1 pair) (token a)"
    and "reserve0 pair \<noteq> 0" "reserve1 pair \<noteq> 0"
  shows "bestTradeExactIn_st (state_in W h pr (Some i) a tOut mnr mh cr orig bt) =
     (case getOutputAmount pair a of
        Inl e \<Rightarrow>
          if e = InsufficientInputAmountError
          then bestTradeExactIn_st (state_in W h pr (Some (Suc i)) a tOut mnr mh cr orig bt)
          else Some (h, Inl e)
      | Inr (amountOut, nextPair) \<Rightarrow>
          if token_equals (token amountOut) tOut then
            (case snd (found_exact_in_st W (alloc h (h ! cr @ [Some pair])) (length h) orig mnr bt) of
               Inl e \<Rightarrow>
                 Some (fst (found_exact_in_st W (alloc h (h ! cr @ [Some pair])) (length h) orig
                              mnr bt), Inl e)
             | Inr bt' \<Rightarrow>
                 bestTradeExactIn_st
                   (state_in W
                      (fst (found_exact_in_st W (alloc h (h ! cr @ [Some pair])) (length h) orig
                              mnr bt))
                      pr (Some (Suc i)) a tOut mnr mh cr orig bt'))
          else if 1 < mh \<and> 1 < length (h ! pr) then
            Option.bind
              (bestTradeExactIn_st
                 (state_in W
                    (alloc (alloc (alloc (alloc h (take i (h ! pr))) (drop (Suc i) (h ! pr)))
                              (take i (h ! pr) @ drop (Suc i) (h ! pr)))
                       (h ! cr @ [Some pair]))
                    (Suc (Suc (length h))) None amountOut tOut mnr (mh - 1)
                    (Suc (Suc (Suc (length h)))) orig bt))
              (\<lambda>deeper.
                 case snd deeper of
                   Inl e \<Rightarrow> Some (fst deeper, Inl e)
                 | Inr bt' \<Rightarrow>
                     bestTradeExactIn_st
                       (state_in W (fst deeper) pr (Some (Suc i)) a tOut mnr mh cr orig bt'))
          else bestTradeExactIn_st (state_in W h pr (Some (Suc i)) a tOut mnr mh cr orig bt))"
proof (cases "getOutputAmount pair a")
  case (Inl e)
  then show ?thesis
    using assms by (subst bestTradeExactIn_st.simps) (auto simp: state_in_def)
next
  case (Inr b)
  obtain amountOut np where b: "b = (amountOut, np)" by (cases b)
  let ?F = "found_exact_in_st W (alloc h (h ! cr @ [Some pair])) (length h) orig mnr bt"
  show ?thesis
  proof (cases "snd ?F")
    case Inl': (Inl e)
    then show ?thesis
      using assms Inr b
      by (subst bestTradeExactIn_st.simps)
         (auto simp: state_in_def Let_def cong: sum.case_cong)
  next
    case Inr': (Inr bt')
    then show ?thesis
      using assms Inr b
      by (subst bestTradeExactIn_st.simps)
         (auto simp: state_in_def Let_def cong: sum.case_cong)
  qed
qed

lemma holds_nth: "holds h r ps \<Longrightarrow> i < length ps \<Longrightarrow> h ! r ! i = Some (ps ! i)"
  by (simp add: holds_def)

lemma holds_length: "holds h r ps \<Longrightarrow> length (h ! r) = length ps"
  by (simp add: holds_def)

lemma holds_snoc:
  "holds h cr cur \<Longrightarrow> holds (alloc h (h ! cr @ [Some p])) (length h) (cur @ [p])"
  by (simp add: holds_def)

lemma descent_heap:
  fixes h :: heap and i :: nat and p :: Pair
  assumes "holds h pr prs" "holds h cr cur"
  shows "holds (alloc (alloc (alloc (alloc h (take i (h ! pr))) (drop (Suc i) (h ! pr)))
                          (take i (h ! pr) @ drop (Suc i) (h ! pr)))
                   (h ! cr @ [Some p])) (Suc (Suc (length h))) (take i prs @ drop (Suc i) prs)"
    and "holds (alloc (alloc (alloc (alloc h (take i (h ! pr))) (drop (Suc i) (h ! pr)))
                          (take i (h ! pr) @ drop (Suc i) (h ! pr)))
                   (h ! cr @ [Some p])) (Suc (Suc (Suc (length h)))) (cur @ [p])"
    and "frame h (alloc (alloc (alloc (alloc h (take i (h ! pr))) (drop (Suc i) (h ! pr)))
                          (take i (h ! pr) @ drop (Suc i) (h ! pr)))
                   (h ! cr @ [Some p]))"
proof -
  have pr: "h ! pr = map Some prs" and cr: "h ! cr = map Some cur"
    using assms(1,2) by (simp_all add: holds_def)
  show "holds (alloc (alloc (alloc (alloc h (take i (h ! pr))) (drop (Suc i) (h ! pr)))
                          (take i (h ! pr) @ drop (Suc i) (h ! pr)))
                   (h ! cr @ [Some p])) (Suc (Suc (length h))) (take i prs @ drop (Suc i) prs)"
    by (simp add: holds_def alloc_def nth_append pr take_map drop_map)
  show "holds (alloc (alloc (alloc (alloc h (take i (h ! pr))) (drop (Suc i) (h ! pr)))
                          (take i (h ! pr) @ drop (Suc i) (h ! pr)))
                   (h ! cr @ [Some p])) (Suc (Suc (Suc (length h)))) (cur @ [p])"
    by (simp add: holds_def alloc_def nth_append cr)
  show "frame h (alloc (alloc (alloc (alloc h (take i (h ! pr))) (drop (Suc i) (h ! pr)))
                          (take i (h ! pr) @ drop (Suc i) (h ! pr)))
                   (h ! cr @ [Some p]))"
    by (simp add: frame_def alloc_def nth_append)
qed

lemma bestTradeExactIn_st_refines:
  shows "\<And>h pr cr. holds h pr prs \<Longrightarrow> holds h cr cur \<Longrightarrow>
           \<exists>h'. bestTradeExactIn_st (state_in W h pr None amountIn tokenOut mnr maxHops cr orig bt)
                  = Some (h', bestTradeExactIn W prs amountIn tokenOut mnr maxHops cur orig bt) \<and>
                frame h h'"
    and "\<And>h pr cr. holds h pr prs \<Longrightarrow> holds h cr cur \<Longrightarrow>
           \<exists>h'. bestTradeExactIn_st
                  (state_in W h pr (Some i) amountIn tokenOut mnr maxHops cr orig bt)
                  = Some (h', bestTradeExactIn_loop W prs i amountIn tokenOut mnr maxHops cur
                                orig bt) \<and>
                frame h h'"
proof (induction W prs amountIn tokenOut mnr maxHops cur orig bt
        and W prs i amountIn tokenOut mnr maxHops cur orig bt
        rule: bestTradeExactIn_bestTradeExactIn_loop.induct)
  case (1 W prs amountIn tokenOut mnr maxHops cur orig bt)
  note lp = holds_length[OF "1.prems"(1)] and lc = holds_length[OF "1.prems"(2)]
  show ?case
  proof (cases "0 < length prs \<and> 0 < maxHops \<and> (orig = amountIn \<or> 0 < length cur)")
    case True
    then show ?thesis
      using "1.IH"[OF _ _ _ "1.prems"] lp lc
      by (simp add: bestTradeExactIn_st_entry bestTradeExactIn.simps)
  next
    case False
    then show ?thesis
      using lp lc by (auto simp: bestTradeExactIn_st_entry bestTradeExactIn.simps)
  qed
next
  case (2 W prs i amountIn tokenOut mnr maxHops cur orig bt)
  note hp = "2.prems"(1) and hc = "2.prems"(2)
  note lp = holds_length[OF hp]
  let ?p = "prs ! i"
  let ?st = "\<lambda>h j bt. bestTradeExactIn_st
                (state_in W h pr (Some j) amountIn tokenOut mnr maxHops cr orig bt)"
  consider (finished) "\<not> i < length prs"
    | (irrelevant) "i < length prs"
        "\<not> token_equals (token0 ?p) (token amountIn) \<and>
         \<not> token_equals (token1 ?p) (token amountIn)"
    | (empty) "i < length prs"
        "\<not> (\<not> token_equals (token0 ?p) (token amountIn) \<and>
            \<not> token_equals (token1 ?p) (token amountIn))"
        "reserve0 ?p = 0 \<or> reserve1 ?p = 0"
    | (swap) "i < length prs"
        "\<not> (\<not> token_equals (token0 ?p) (token amountIn) \<and>
            \<not> token_equals (token1 ?p) (token amountIn))"
        "\<not> (reserve0 ?p = 0 \<or> reserve1 ?p = 0)"
    by blast
  then show ?case
  proof cases
    case finished
    then show ?thesis
      using lp by (simp add: bestTradeExactIn_st_end bestTradeExactIn_loop_end)
  next
    case irrelevant
    have li: "i < length (h ! pr)" using irrelevant(1) lp by simp
    note n = holds_nth[OF hp irrelevant(1)]
    show ?thesis
      using "2.IH"(1)[OF _ refl irrelevant(2) hp hc] irrelevant
      by (simp add: bestTradeExactIn_st_skip[OF li n] bestTradeExactIn_loop_skip)
  next
    case empty
    have li: "i < length (h ! pr)" using empty(1) lp by simp
    note n = holds_nth[OF hp empty(1)]
    show ?thesis
      using "2.IH"(2)[OF _ refl empty(2,3) hp hc] empty
      by (simp add: bestTradeExactIn_st_skip[OF li n] bestTradeExactIn_loop_skip)
  next
    case swap
    note lt = swap(1) and rel = swap(2) and nz = swap(3)
    have li: "i < length (h ! pr)" using lt lp by simp
    note n = holds_nth[OF hp lt]
    have rel': "token_equals (token0 ?p) (token amountIn) \<or>
                token_equals (token1 ?p) (token amountIn)"
      and nz': "reserve0 ?p \<noteq> 0" "reserve1 ?p \<noteq> 0"
      using rel nz by auto
    have prl: "pr < length h" and crl: "cr < length h"
      using hp hc by (simp_all add: holds_def)
    note pure = bestTradeExactIn_loop_swap[OF lt rel' nz', of W tokenOut mnr maxHops cur orig bt]
    note store = bestTradeExactIn_st_swap[OF li n prl crl rel' nz', of W tokenOut mnr maxHops
        orig bt]
    show ?thesis
    proof (cases "getOutputAmount ?p amountIn")
      case (Inl e)
      show ?thesis
      proof (cases "e = InsufficientInputAmountError")
        case True
        then show ?thesis
          using "2.IH"(3)[OF _ refl rel nz Inl True hp hc] lt Inl pure store by simp
      next
        case False
        then show ?thesis using Inl pure store by simp
      qed
    next
      case (Inr b)
      obtain amountOut np where b: "(amountOut, np) = b" by (cases b) auto
      have g: "getOutputAmount ?p amountIn = Inr (amountOut, np)" using Inr b by simp
      show ?thesis
      proof (cases "token_equals (token amountOut) tokenOut")
        case True
        let ?h1 = "alloc h (h ! cr @ [Some ?p])"
        let ?F = "found_exact_in_st W ?h1 (length h) orig mnr bt"
        have h1: "holds ?h1 (length h) (cur @ [?p])" by (rule holds_snoc[OF hc])
        have v: "snd ?F = found_exact_in W (cur @ [?p]) orig mnr bt"
          by (rule found_exact_in_st_refines(1)[OF h1])
        have f: "frame h (fst ?F)"
          using found_exact_in_st_refines(2)[OF h1, of W orig mnr bt] frame_alloc
          by (rule frame_trans[rotated])
        show ?thesis
        proof (cases "found_exact_in W (cur @ [?p]) orig mnr bt")
          case (Inl e)
          then show ?thesis using v f g True pure store by simp
        next
          case (Inr bt')
          then obtain r t where
            r: "Route_constructor (cur @ [?p]) (token orig) = Inr r" and
            t: "Trade_constructor W r (TokenAmt orig) EXACT_INPUT = Inr t" and
            s: "sortedInsert bt t mnr tradeComparator = Inr bt'"
            by (auto simp: found_exact_in_def split: sum.splits)
          from "2.IH"(4)[OF _ refl rel nz \<open>getOutputAmount ?p amountIn = Inr b\<close> b True
                r t s holds_frame[OF hp f] holds_frame[OF hc f]]
          obtain h' where
            "bestTradeExactIn_st (state_in W (fst ?F) pr (Some (i + 1)) amountIn tokenOut mnr
               maxHops cr orig bt')
             = Some (h', bestTradeExactIn_loop W prs (i + 1) amountIn tokenOut mnr maxHops cur
                           orig bt')"
            "frame (fst ?F) h'"
            using lt by auto
          then show ?thesis
            using v f g True Inr pure store by (auto intro: frame_trans)
        qed
      next
        case nt: False
        show ?thesis
        proof (cases "1 < maxHops \<and> 1 < length prs")
          case False
          then show ?thesis
            using "2.IH"(7)[OF _ refl rel nz \<open>getOutputAmount ?p amountIn = Inr b\<close> b nt False
                hp hc] lt g nt pure store lp
            by auto
        next
          case deep: True
          let ?h4 = "alloc (alloc (alloc (alloc h (take i (h ! pr))) (drop (Suc i) (h ! pr)))
                              (take i (h ! pr) @ drop (Suc i) (h ! pr)))
                       (h ! cr @ [Some ?p])"
          note d = descent_heap[OF hp hc, of i ?p]
          have d1: "holds ?h4 (Suc (Suc (length h))) (take i prs @ drop (i + 1) prs)"
            using d(1) by simp
          from "2.IH"(5)[OF _ refl rel nz \<open>getOutputAmount ?p amountIn = Inr b\<close> b nt deep
              d1 d(2)] lt
          obtain h5 where
            rec: "bestTradeExactIn_st
                    (state_in W ?h4 (Suc (Suc (length h))) None amountOut tokenOut mnr
                       (maxHops - 1) (Suc (Suc (Suc (length h)))) orig bt)
                  = Some (h5, bestTradeExactIn W (take i prs @ drop (Suc i) prs) amountOut
                                tokenOut mnr (maxHops - 1) (cur @ [?p]) orig bt)"
            and f5: "frame ?h4 h5"
            by auto
          have f: "frame h h5" using d(3) f5 by (rule frame_trans)
          show ?thesis
          proof (cases "bestTradeExactIn W (take i prs @ drop (Suc i) prs) amountOut tokenOut mnr
                          (maxHops - 1) (cur @ [?p]) orig bt")
            case (Inl e)
            then show ?thesis using rec f g nt deep pure store lp by simp
          next
            case (Inr bt')
            from "2.IH"(6)[OF _ refl rel nz \<open>getOutputAmount ?p amountIn = Inr b\<close> b nt
                deep _ holds_frame[OF hp f] holds_frame[OF hc f], of bt'] Inr lt
            obtain h' where
              "bestTradeExactIn_st (state_in W h5 pr (Some (i + 1)) amountIn tokenOut mnr
                 maxHops cr orig bt')
               = Some (h', bestTradeExactIn_loop W prs (i + 1) amountIn tokenOut mnr maxHops cur
                             orig bt')"
              "frame h5 h'"
              by auto
            then show ?thesis
              using rec f g nt deep Inr pure store lp by (auto intro: frame_trans)
          qed
        qed
      qed
    qed
  qed
qed

lemma found_exact_out_st_refines:
  assumes "holds h r ps"
  shows "snd (found_exact_out_st W h r tIn orig mnr bt) = found_exact_out W ps tIn orig mnr bt"
    and "frame h (fst (found_exact_out_st W h r tIn orig mnr bt))"
proof -
  have hr: "those (h ! r) = Some ps" using assms by (simp add: holds_def)
  show "snd (found_exact_out_st W h r tIn orig mnr bt) = found_exact_out W ps tIn orig mnr bt"
  proof (cases "Route_constructor ps tIn")
    case (Inl e)
    then show ?thesis by (simp add: found_exact_out_st_def found_exact_out_def hr)
  next
    case (Inr rt)
    let ?t = "Trade_constructor_st W h rt (TokenAmt orig) EXACT_OUTPUT"
    have t: "?t = (fst ?t, Trade_constructor W rt (TokenAmt orig) EXACT_OUTPUT)"
      by (simp add: prod_eq_iff)
    show ?thesis
      by (cases "Trade_constructor W rt (TokenAmt orig) EXACT_OUTPUT")
         (simp_all add: found_exact_out_st_def found_exact_out_def hr Inr,
          (subst t, simp)+)
  qed
  show "frame h (fst (found_exact_out_st W h r tIn orig mnr bt))"
  proof (cases "Route_constructor ps tIn")
    case (Inl e)
    then show ?thesis by (simp add: found_exact_out_st_def hr)
  next
    case (Inr rt)
    let ?t = "Trade_constructor_st W h rt (TokenAmt orig) EXACT_OUTPUT"
    have t: "?t = (fst ?t, Trade_constructor W rt (TokenAmt orig) EXACT_OUTPUT)"
      by (simp add: prod_eq_iff)
    have f: "frame h (fst ?t)" by (rule Trade_constructor_st_frame)
    show ?thesis
      by (cases "Trade_constructor W rt (TokenAmt orig) EXACT_OUTPUT")
         (simp_all add: found_exact_out_st_def hr Inr, (subst t, simp add: f)+)
  qed
qed

lemma bestTradeExactOut_st_entry:
  "bestTradeExactOut_st (state_out W h pr None tIn a mnr mh cr orig bt) =
     (if \<not> length (h ! pr) > 0 then Some (h, Inl (Invariant ''PAIRS''))
      else if \<not> mh > 0 then Some (h, Inl (Invariant ''MAX_HOPS''))
      else if \<not> (orig = a \<or> length (h ! cr) > 0)
      then Some (h, Inl (Invariant ''INVALID_RECURSION''))
      else bestTradeExactOut_st (state_out W h pr (Some 0) tIn a mnr mh cr orig bt))"
  by (subst bestTradeExactOut_st.simps) (simp add: state_out_def)

lemma bestTradeExactOut_st_end:
  "\<not> i < length (h ! pr) \<Longrightarrow>
   bestTradeExactOut_st (state_out W h pr (Some i) tIn a mnr mh cr orig bt) = Some (h, Inr bt)"
  by (subst bestTradeExactOut_st.simps) (simp add: state_out_def)

lemma bestTradeExactOut_st_skip:
  assumes "i < length (h ! pr)" "h ! pr ! i = Some pair"
    and "(\<not> token_equals (token0 pair) (token a) \<and> \<not> token_equals (token1 pair) (token a)) \<or>
         reserve0 pair = 0 \<or> reserve1 pair = 0"
  shows "bestTradeExactOut_st (state_out W h pr (Some i) tIn a mnr mh cr orig bt) =
         bestTradeExactOut_st (state_out W h pr (Some (Suc i)) tIn a mnr mh cr orig bt)"
  using assms by (subst bestTradeExactOut_st.simps) (auto simp: state_out_def)

lemma bestTradeExactOut_st_swap:
  assumes "i < length (h ! pr)" "h ! pr ! i = Some pair" "pr < length h" "cr < length h"
    and "token_equals (token0 pair) (token a) \<or> token_equals (token1 pair) (token a)"
    and "reserve0 pair \<noteq> 0" "reserve1 pair \<noteq> 0"
  shows "bestTradeExactOut_st (state_out W h pr (Some i) tIn a mnr mh cr orig bt) =
     (case getInputAmount pair a of
        Inl e \<Rightarrow>
          if e = InsufficientReservesError
          then bestTradeExactOut_st (state_out W h pr (Some (Suc i)) tIn a mnr mh cr orig bt)
          else Some (h, Inl e)
      | Inr (amountIn, nextPair) \<Rightarrow>
          if token_equals (token amountIn) tIn then
            (case snd (found_exact_out_st W (alloc h (Some pair # h ! cr)) (length h) tIn orig mnr bt) of
               Inl e \<Rightarrow>
                 Some (fst (found_exact_out_st W (alloc h (Some pair # h ! cr)) (length h) tIn orig
                              mnr bt), Inl e)
             | Inr bt' \<Rightarrow>
                 bestTradeExactOut_st
                   (state_out W
                      (fst (found_exact_out_st W (alloc h (Some pair # h ! cr)) (length h) tIn orig
                              mnr bt))
                      pr (Some (Suc i)) tIn a mnr mh cr orig bt'))
          else if 1 < mh \<and> 1 < length (h ! pr) then
            Option.bind
              (bestTradeExactOut_st
                 (state_out W
                    (alloc (alloc (alloc (alloc h (take i (h ! pr))) (drop (Suc i) (h ! pr)))
                              (take i (h ! pr) @ drop (Suc i) (h ! pr)))
                       (Some pair # h ! cr))
                    (Suc (Suc (length h))) None tIn amountIn mnr (mh - 1)
                    (Suc (Suc (Suc (length h)))) orig bt))
              (\<lambda>deeper.
                 case snd deeper of
                   Inl e \<Rightarrow> Some (fst deeper, Inl e)
                 | Inr bt' \<Rightarrow>
                     bestTradeExactOut_st
                       (state_out W (fst deeper) pr (Some (Suc i)) tIn a mnr mh cr orig bt'))
          else bestTradeExactOut_st (state_out W h pr (Some (Suc i)) tIn a mnr mh cr orig bt))"
proof (cases "getInputAmount pair a")
  case (Inl e)
  then show ?thesis
    using assms by (subst bestTradeExactOut_st.simps) (auto simp: state_out_def)
next
  case (Inr b)
  obtain amountIn np where b: "b = (amountIn, np)" by (cases b)
  let ?F = "found_exact_out_st W (alloc h (Some pair # h ! cr)) (length h) tIn orig mnr bt"
  show ?thesis
  proof (cases "snd ?F")
    case Inl': (Inl e)
    then show ?thesis
      using assms Inr b
      by (subst bestTradeExactOut_st.simps)
         (auto simp: state_out_def Let_def cong: sum.case_cong)
  next
    case Inr': (Inr bt')
    then show ?thesis
      using assms Inr b
      by (subst bestTradeExactOut_st.simps)
         (auto simp: state_out_def Let_def cong: sum.case_cong)
  qed
qed

lemma holds_cons:
  "holds h cr cur \<Longrightarrow> holds (alloc h (Some p # h ! cr)) (length h) (p # cur)"
  by (simp add: holds_def)

lemma descent_heap_cons:
  fixes h :: heap and i :: nat and p :: Pair
  assumes "holds h pr prs" "holds h cr cur"
  shows "holds (alloc (alloc (alloc (alloc h (take i (h ! pr))) (drop (Suc i) (h ! pr)))
                          (take i (h ! pr) @ drop (Suc i) (h ! pr)))
                   (Some p # h ! cr)) (Suc (Suc (length h))) (take i prs @ drop (Suc i) prs)"
    and "holds (alloc (alloc (alloc (alloc h (take i (h ! pr))) (drop (Suc i) (h ! pr)))
                          (take i (h ! pr) @ drop (Suc i) (h ! pr)))
                   (Some p # h ! cr)) (Suc (Suc (Suc (length h)))) (p # cur)"
    and "frame h (alloc (alloc (alloc (alloc h (take i (h ! pr))) (drop (Suc i) (h ! pr)))
                          (take i (h ! pr) @ drop (Suc i) (h ! pr)))
                   (Some p # h ! cr))"
proof -
  have pr: "h ! pr = map Some prs" and cr: "h ! cr = map Some cur"
    using assms(1,2) by (simp_all add: holds_def)
  show "holds (alloc (alloc (alloc (alloc h (take i (h ! pr))) (drop (Suc i) (h ! pr)))
                          (take i (h ! pr) @ drop (Suc i) (h ! pr)))
                   (Some p # h ! cr)) (Suc (Suc (length h))) (take i prs @ drop (Suc i) prs)"
    by (simp add: holds_def alloc_def nth_append pr take_map drop_map)
  show "holds (alloc (alloc (alloc (alloc h (take i (h ! pr))) (drop (Suc i) (h ! pr)))
                          (take i (h ! pr) @ drop (Suc i) (h ! pr)))
                   (Some p # h ! cr)) (Suc (Suc (Suc (length h)))) (p # cur)"
    by (simp add: holds_def alloc_def nth_append cr)
  show "frame h (alloc (alloc (alloc (alloc h (take i (h ! pr))) (drop (Suc i) (h ! pr)))
                          (take i (h ! pr) @ drop (Suc i) (h ! pr)))
                   (Some p # h ! cr))"
    by (simp add: frame_def alloc_def nth_append)
qed

lemma bestTradeExactOut_st_refines:
  shows "\<And>h pr cr. holds h pr prs \<Longrightarrow> holds h cr cur \<Longrightarrow>
           \<exists>h'. bestTradeExactOut_st (state_out W h pr None tokenIn amountOut mnr maxHops cr orig bt)
                  = Some (h', bestTradeExactOut W prs tokenIn amountOut mnr maxHops cur orig bt) \<and>
                frame h h'"
    and "\<And>h pr cr. holds h pr prs \<Longrightarrow> holds h cr cur \<Longrightarrow>
           \<exists>h'. bestTradeExactOut_st
                  (state_out W h pr (Some i) tokenIn amountOut mnr maxHops cr orig bt)
                  = Some (h', bestTradeExactOut_loop W prs i tokenIn amountOut mnr maxHops cur
                                orig bt) \<and>
                frame h h'"
proof (induction W prs tokenIn amountOut mnr maxHops cur orig bt
        and W prs i tokenIn amountOut mnr maxHops cur orig bt
        rule: bestTradeExactOut_bestTradeExactOut_loop.induct)
  case (1 W prs tokenIn amountOut mnr maxHops cur orig bt)
  note lp = holds_length[OF "1.prems"(1)] and lc = holds_length[OF "1.prems"(2)]
  show ?case
  proof (cases "0 < length prs \<and> 0 < maxHops \<and> (orig = amountOut \<or> 0 < length cur)")
    case True
    then show ?thesis
      using "1.IH"[OF _ _ _ "1.prems"] lp lc
      by (simp add: bestTradeExactOut_st_entry bestTradeExactOut.simps)
  next
    case False
    then show ?thesis
      using lp lc by (auto simp: bestTradeExactOut_st_entry bestTradeExactOut.simps)
  qed
next
  case (2 W prs i tokenIn amountOut mnr maxHops cur orig bt)
  note hp = "2.prems"(1) and hc = "2.prems"(2)
  note lp = holds_length[OF hp]
  let ?p = "prs ! i"
  let ?st = "\<lambda>h j bt. bestTradeExactOut_st
                (state_out W h pr (Some j) tokenIn amountOut mnr maxHops cr orig bt)"
  consider (finished) "\<not> i < length prs"
    | (irrelevant) "i < length prs"
        "\<not> token_equals (token0 ?p) (token amountOut) \<and>
         \<not> token_equals (token1 ?p) (token amountOut)"
    | (empty) "i < length prs"
        "\<not> (\<not> token_equals (token0 ?p) (token amountOut) \<and>
            \<not> token_equals (token1 ?p) (token amountOut))"
        "reserve0 ?p = 0 \<or> reserve1 ?p = 0"
    | (swap) "i < length prs"
        "\<not> (\<not> token_equals (token0 ?p) (token amountOut) \<and>
            \<not> token_equals (token1 ?p) (token amountOut))"
        "\<not> (reserve0 ?p = 0 \<or> reserve1 ?p = 0)"
    by blast
  then show ?case
  proof cases
    case finished
    then show ?thesis
      using lp by (simp add: bestTradeExactOut_st_end bestTradeExactOut_loop_end)
  next
    case irrelevant
    have li: "i < length (h ! pr)" using irrelevant(1) lp by simp
    note n = holds_nth[OF hp irrelevant(1)]
    show ?thesis
      using "2.IH"(1)[OF _ refl irrelevant(2) hp hc] irrelevant
      by (simp add: bestTradeExactOut_st_skip[OF li n] bestTradeExactOut_loop_skip)
  next
    case empty
    have li: "i < length (h ! pr)" using empty(1) lp by simp
    note n = holds_nth[OF hp empty(1)]
    show ?thesis
      using "2.IH"(2)[OF _ refl empty(2,3) hp hc] empty
      by (simp add: bestTradeExactOut_st_skip[OF li n] bestTradeExactOut_loop_skip)
  next
    case swap
    note lt = swap(1) and rel = swap(2) and nz = swap(3)
    have li: "i < length (h ! pr)" using lt lp by simp
    note n = holds_nth[OF hp lt]
    have rel': "token_equals (token0 ?p) (token amountOut) \<or>
                token_equals (token1 ?p) (token amountOut)"
      and nz': "reserve0 ?p \<noteq> 0" "reserve1 ?p \<noteq> 0"
      using rel nz by auto
    have prl: "pr < length h" and crl: "cr < length h"
      using hp hc by (simp_all add: holds_def)
    note pure = bestTradeExactOut_loop_swap[OF lt rel' nz', of W tokenIn mnr maxHops cur orig bt]
    note store = bestTradeExactOut_st_swap[OF li n prl crl rel' nz', of W tokenIn mnr maxHops
        orig bt]
    show ?thesis
    proof (cases "getInputAmount ?p amountOut")
      case (Inl e)
      show ?thesis
      proof (cases "e = InsufficientReservesError")
        case True
        then show ?thesis
          using "2.IH"(3)[OF _ refl rel nz Inl True hp hc] lt Inl pure store by simp
      next
        case False
        then show ?thesis using Inl pure store by simp
      qed
    next
      case (Inr b)
      obtain amountIn np where b: "(amountIn, np) = b" by (cases b) auto
      have g: "getInputAmount ?p amountOut = Inr (amountIn, np)" using Inr b by simp
      show ?thesis
      proof (cases "token_equals (token amountIn) tokenIn")
        case True
        let ?h1 = "alloc h (Some ?p # h ! cr)"
        let ?F = "found_exact_out_st W ?h1 (length h) tokenIn orig mnr bt"
        have h1: "holds ?h1 (length h) (?p # cur)" by (rule holds_cons[OF hc])
        have v: "snd ?F = found_exact_out W (?p # cur) tokenIn orig mnr bt"
          by (rule found_exact_out_st_refines(1)[OF h1])
        have f: "frame h (fst ?F)"
          using found_exact_out_st_refines(2)[OF h1, of W tokenIn orig mnr bt] frame_alloc
          by (rule frame_trans[rotated])
        show ?thesis
        proof (cases "found_exact_out W (?p # cur) tokenIn orig mnr bt")
          case (Inl e)
          then show ?thesis using v f g True pure store by simp
        next
          case (Inr bt')
          then obtain r t where
            r: "Route_constructor (?p # cur) tokenIn = Inr r" and
            t: "Trade_constructor W r (TokenAmt orig) EXACT_OUTPUT = Inr t" and
            s: "sortedInsert bt t mnr tradeComparator = Inr bt'"
            by (auto simp: found_exact_out_def split: sum.splits)
          from "2.IH"(4)[OF _ refl rel nz \<open>getInputAmount ?p amountOut = Inr b\<close> b True
                r t s holds_frame[OF hp f] holds_frame[OF hc f]]
          obtain h' where
            "bestTradeExactOut_st (state_out W (fst ?F) pr (Some (i + 1)) tokenIn amountOut mnr
               maxHops cr orig bt')
             = Some (h', bestTradeExactOut_loop W prs (i + 1) tokenIn amountOut mnr maxHops cur
                           orig bt')"
            "frame (fst ?F) h'"
            using lt by auto
          then show ?thesis
            using v f g True Inr pure store by (auto intro: frame_trans)
        qed
      next
        case nt: False
        show ?thesis
        proof (cases "1 < maxHops \<and> 1 < length prs")
          case False
          then show ?thesis
            using "2.IH"(7)[OF _ refl rel nz \<open>getInputAmount ?p amountOut = Inr b\<close> b nt False
                hp hc] lt g nt pure store lp
            by auto
        next
          case deep: True
          let ?h4 = "alloc (alloc (alloc (alloc h (take i (h ! pr))) (drop (Suc i) (h ! pr)))
                              (take i (h ! pr) @ drop (Suc i) (h ! pr)))
                       (Some ?p # h ! cr)"
          note d = descent_heap_cons[OF hp hc, of i ?p]
          have d1: "holds ?h4 (Suc (Suc (length h))) (take i prs @ drop (i + 1) prs)"
            using d(1) by simp
          from "2.IH"(5)[OF _ refl rel nz \<open>getInputAmount ?p amountOut = Inr b\<close> b nt deep
              d1 d(2)] lt
          obtain h5 where
            rec: "bestTradeExactOut_st
                    (state_out W ?h4 (Suc (Suc (length h))) None tokenIn amountIn mnr
                       (maxHops - 1) (Suc (Suc (Suc (length h)))) orig bt)
                  = Some (h5, bestTradeExactOut W (take i prs @ drop (Suc i) prs) tokenIn
                                amountIn mnr (maxHops - 1) (?p # cur) orig bt)"
            and f5: "frame ?h4 h5"
            by auto
          have f: "frame h h5" using d(3) f5 by (rule frame_trans)
          show ?thesis
          proof (cases "bestTradeExactOut W (take i prs @ drop (Suc i) prs) tokenIn amountIn mnr
                          (maxHops - 1) (?p # cur) orig bt")
            case (Inl e)
            then show ?thesis using rec f g nt deep pure store lp by simp
          next
            case (Inr bt')
            from "2.IH"(6)[OF _ refl rel nz \<open>getInputAmount ?p amountOut = Inr b\<close> b nt
                deep _ holds_frame[OF hp f] holds_frame[OF hc f], of bt'] Inr lt
            obtain h' where
              "bestTradeExactOut_st (state_out W h5 pr (Some (i + 1)) tokenIn amountOut mnr
                 maxHops cr orig bt')
               = Some (h', bestTradeExactOut_loop W prs (i + 1) tokenIn amountOut mnr maxHops cur
                             orig bt')"
              "frame h5 h'"
              by auto
            then show ?thesis
              using rec f g nt deep Inr pure store lp by (auto intro: frame_trans)
          qed
        qed
      qed
    qed
  qed
qed

text \<open>
  Claim C10. For every invocation, \<open>bestTradeExactIn\<close> and \<open>bestTradeExactOut\<close> leave the
  array \<open>pairs\<close> supplied by the caller unchanged. For a store \<open>h\<close> in which \<open>pairs\<close> (at
  address \<open>pr\<close>) and \<open>currentPairs\<close> (at \<open>cr\<close>, which may be \<open>pr\<close> itself) are arrays of
  pairs, the call returns with the result of the search on lists, and in the store
  \<open>h'\<close> it leaves every array of \<open>h\<close> is as it was: the candidate arrays
  (\<^verbatim>\<open>slice\<close>, \<^verbatim>\<open>concat\<close>), the path arrays (spread) and \<^verbatim>\<open>nextPairs\<close> are all new. So
  \<open>pairs\<close> holds the same elements in the same order after the call.
\<close>

theorem pairs_array_unchanged:
  assumes "holds h pr prs" and "holds h cr cur"
  shows "(\<exists>h'. bestTradeExactIn_st
                 (state_in W h pr None amountIn tokenOut maxNumResults maxHops cr
                    originalAmountIn bestTrades)
               = Some (h', bestTradeExactIn W prs amountIn tokenOut maxNumResults maxHops cur
                             originalAmountIn bestTrades) \<and>
               frame h h' \<and> h' ! pr = map Some prs) \<and>
         (\<exists>h'. bestTradeExactOut_st
                 (state_out W h pr None tokenIn amountOut maxNumResults maxHops cr
                    originalAmountOut bestTrades')
               = Some (h', bestTradeExactOut W prs tokenIn amountOut maxNumResults maxHops cur
                             originalAmountOut bestTrades') \<and>
               frame h h' \<and> h' ! pr = map Some prs)"
proof
  from bestTradeExactIn_st_refines(1)[OF assms]
  obtain h' where
    "bestTradeExactIn_st
       (state_in W h pr None amountIn tokenOut maxNumResults maxHops cr
          originalAmountIn bestTrades)
     = Some (h', bestTradeExactIn W prs amountIn tokenOut maxNumResults maxHops cur
                   originalAmountIn bestTrades)"
    and f: "frame h h'"
    by blast
  moreover have "h' ! pr = map Some prs"
    using holds_frame[OF assms(1) f] by (simp add: holds_def)
  ultimately show "\<exists>h'. bestTradeExactIn_st
                 (state_in W h pr None amountIn tokenOut maxNumResults maxHops cr
                    originalAmountIn bestTrades)
               = Some (h', bestTradeExactIn W prs amountIn tokenOut maxNumResults maxHops cur
                             originalAmountIn bestTrades) \<and>
               frame h h' \<and> h' ! pr = map Some prs"
    by blast
next
  from bestTradeExactOut_st_refines(1)[OF assms]
  obtain h' where
    "bestTradeExactOut_st
       (state_out W h pr None tokenIn amountOut maxNumResults maxHops cr
          originalAmountOut bestTrades')
     = Some (h', bestTradeExactOut W prs tokenIn amountOut maxNumResults maxHops cur
                   originalAmountOut bestTrades')"
    and f: "frame h h'"
    by blast
  moreover have "h' ! pr = map Some prs"
    using holds_frame[OF assms(1) f] by (simp add: holds_def)
  ultimately show "\<exists>h'. bestTradeExactOut_st
                 (state_out W h pr None tokenIn amountOut maxNumResults maxHops cr
                    originalAmountOut bestTrades')
               = Some (h', bestTradeExactOut W prs tokenIn amountOut maxNumResults maxHops cur
                             originalAmountOut bestTrades') \<and>
               frame h h' \<and> h' ! pr = map Some prs"
    by blast
qed

theorem pairs_array_unchanged_witness:
  "(\<exists>h'. bestTradeExactIn_st
            (state_in WETH [map Some market, []] 0 None amountA100 tokenC 3 3 1 amountA100 [])
          = Some (h', Inr [tradeAC, tradeABC]) \<and>
          h' ! 0 = map Some market) \<and>
   (\<exists>h'. bestTradeExactOut_st
            (state_out WETH [map Some market, []] 0 None tokenA amountC100 3 3 1 amountC100 [])
          = Some (h', Inr [tradeAC_out, tradeABC_out]) \<and>
          h' ! 0 = map Some market)"
proof -
  have p: "holds [map Some market, []] 0 market" and c: "holds [map Some market, []] 1 []"
    by (simp_all add: holds_def)
  show ?thesis
    using pairs_array_unchanged[OF p c, of WETH amountA100 tokenC 3 3 amountA100 "[]"
        tokenA amountC100 amountC100 "[]"]
      example_search_in example_search_out
    by auto
qed

end
